theory Spec2Isabelle
  imports Complex_Main "HOL-Library.Word" "HOL-Library.AList" "HOL-Library.Sublist"
begin

section \<open>The AI engine (src/analysis/ai/ai_engine.h, ai_engine.cpp)\<close>

text \<open>
  C++ \<open>int\<close> is a \<open>32 word\<close> read with \<open>sint\<close> (arithmetic wraps around),
  \<open>size_t\<close> and the 64-bit tick count of \<open>std::chrono::milliseconds\<close> are \<open>64 word\<close>.
  A \<open>system_clock::time_point\<close> is its tick count (nanoseconds since the epoch) as an
  \<open>int\<close>. The \<open>double\<close> confidence score is only carried, never computed with.
\<close>

subsection \<open>Configuration\<close>

record AIEngineConfig =
  python_executable :: string
  ai_service_path :: string
  model_type :: string
  timeout_seconds :: "32 word"
  max_retries :: "32 word"
  enable_caching :: bool
  enable_learning :: bool
  cache_max_size :: "64 word"

definition validate :: "AIEngineConfig \<Rightarrow> bool" where
  "validate c \<longleftrightarrow>
     python_executable c \<noteq> [] \<and> ai_service_path c \<noteq> [] \<and>
     0 <s timeout_seconds c \<and> 0 \<le>s max_retries c"

text \<open>The defaults of the struct's member initialisers.\<close>

definition default_config :: AIEngineConfig where
  "default_config =
     \<lparr>python_executable = ''python3'',
      ai_service_path = ''src/analysis/ai/ai_service.py'',
      model_type = ''advanced'',
      timeout_seconds = 30,
      max_retries = 3,
      enable_caching = True,
      enable_learning = True,
      cache_max_size = 1000\<rparr>"

subsection \<open>Results, cache entries, metrics\<close>

record AIAnalysisResult =
  success :: bool
  analysis :: string
  error_message :: string
  confidence_score :: real
  severity_level :: "32 word"
  recommendations :: "string list"
  processing_time :: "64 word"
  from_cache :: bool

definition default_result :: AIAnalysisResult where
  "default_result =
     \<lparr>success = False, analysis = [], error_message = [], confidence_score = 0,
      severity_level = 0, recommendations = [], processing_time = 0, from_cache = False\<rparr>"

record CacheEntry =
  key :: string
  result :: AIAnalysisResult
  timestamp :: int
  access_count :: "64 word"

text \<open>\<open>CACHE_TTL\<close> is 3600 seconds, compared with a difference of nanosecond ticks.\<close>

definition CACHE_TTL :: int where
  "CACHE_TTL = 3600 * 1000000000"

definition isExpired :: "int \<Rightarrow> CacheEntry \<Rightarrow> bool" where
  "isExpired now e \<longleftrightarrow> now - timestamp e > CACHE_TTL"

record Metrics =
  total_requests :: "64 word"
  successful_requests :: "64 word"
  failed_requests :: "64 word"
  cache_hits :: "64 word"
  cache_misses :: "64 word"
  total_processing_time :: "64 word"
  avg_processing_time :: "64 word"

definition zero_metrics :: Metrics where
  "zero_metrics =
     \<lparr>total_requests = 0, successful_requests = 0, failed_requests = 0, cache_hits = 0,
      cache_misses = 0, total_processing_time = 0, avg_processing_time = 0\<rparr>"

text \<open>
  \<open>updateMetrics\<close>: the quotient \<open>total.count() / total_requests\<close> divides a
  \<open>long\<close> by an \<open>unsigned long\<close>, which is the unsigned division of the words.
\<close>

definition updateMetrics :: "64 word \<Rightarrow> bool \<Rightarrow> Metrics \<Rightarrow> Metrics" where
  "updateMetrics duration ok m =
     (let m1 = m\<lparr>total_requests := total_requests m + 1\<rparr>;
          m2 = (if ok then m1\<lparr>successful_requests := successful_requests m1 + 1\<rparr>
                else m1\<lparr>failed_requests := failed_requests m1 + 1\<rparr>);
          m3 = m2\<lparr>total_processing_time := total_processing_time m2 + duration\<rparr>
      in if 0 < total_requests m3
         then m3\<lparr>avg_processing_time := total_processing_time m3 div total_requests m3\<rparr>
         else m3)"

subsection \<open>The engine's state\<close>

text \<open>
  The \<open>unordered_map\<close> cache is an association list with distinct keys, in the order
  in which the keys were inserted. The order in which the container itself iterates
  over its entries depends on the library's hashing and is not modelled; it matters
  only where \<open>std::min_element\<close> meets several entries of the same, oldest timestamp
  (see below). Two fields record what the
  engine does to the outside: the keys named by the "Evicting cache entry" log lines,
  and the arguments (milliseconds) of the \<open>sleep_for\<close> calls. The members
  \<open>config_\<close>, \<open>analysis_cache_\<close> and \<open>metrics_\<close> lose the trailing underscore,
  which is not part of a name here.
\<close>

record AIEngine =
  config :: AIEngineConfig
  analysis_cache :: "(string \<times> CacheEntry) list"
  metrics :: Metrics
  evictions :: "string list"
  sleeps :: "int list"

definition new_engine :: "AIEngineConfig \<Rightarrow> AIEngine" where
  "new_engine cfg =
     \<lparr>config = cfg, analysis_cache = [], metrics = zero_metrics,
      evictions = [], sleeps = []\<rparr>"

subsection \<open>Runtime reconfiguration\<close>

definition updateConfiguration :: "AIEngineConfig \<Rightarrow> AIEngine \<Rightarrow> bool \<times> AIEngine" where
  "updateConfiguration cfg s =
     (if \<not> validate cfg then (False, s)
      else (True, s\<lparr>config := cfg\<rparr>))"

definition getConfiguration :: "AIEngine \<Rightarrow> AIEngineConfig" where
  "getConfiguration s = config s"

subsection \<open>Cache key and input sanitising\<close>

text \<open>
  \<open>generateCacheKey\<close> hashes \<open>code | language | file_path | model_type\<close> with
  OpenSSL's SHA-256 and prints the digest in hexadecimal. The digest is a library
  function, not code of the repository: it is the parameter \<open>sha256_hex\<close>.
\<close>

definition generateCacheKey ::
  "(string \<Rightarrow> string) \<Rightarrow> AIEngineConfig \<Rightarrow> string \<Rightarrow> string \<Rightarrow> string \<Rightarrow> string" where
  "generateCacheKey sha256_hex cfg code language file_path =
     sha256_hex (code @ ''|'' @ language @ ''|'' @ file_path @ ''|'' @ model_type cfg)"

definition MAX_INPUT_SIZE :: nat where
  "MAX_INPUT_SIZE = 1024 * 1024"

definition sanitizeInput :: "string \<Rightarrow> string" where
  "sanitizeInput input =
     (let sanitized = filter (\<lambda>c. c \<noteq> CHR 0x00) input
      in if length sanitized > MAX_INPUT_SIZE then take MAX_INPUT_SIZE sanitized
         else sanitized)"

subsection \<open>The cache\<close>

text \<open>
  \<open>getFromCache\<close> reads the system clock (\<open>now\<close>) only for a key that is present. A
  hit increments the entry's access count and sets \<open>from_cache\<close> in the stored result
  before returning a copy of it; an expired entry is erased.
\<close>

definition getFromCache ::
  "int \<Rightarrow> string \<Rightarrow> AIEngine \<Rightarrow> AIAnalysisResult option \<times> AIEngine" where
  "getFromCache now k s =
     (case map_of (analysis_cache s) k of
        None \<Rightarrow> (None, s)
      | Some e \<Rightarrow>
          if \<not> isExpired now e
          then (let e' = e\<lparr>access_count := access_count e + 1,
                            result := (result e)\<lparr>from_cache := True\<rparr>\<rparr>
                in (Some (result e'),
                    s\<lparr>analysis_cache := AList.update k e' (analysis_cache s)\<rparr>))
          else (None, s\<lparr>analysis_cache := AList.delete k (analysis_cache s)\<rparr>))"

text \<open>
  \<open>std::min_element\<close> with the comparison \<open>a.timestamp < b.timestamp\<close>: an entry
  that no other entry is older than. Among several such entries the library returns
  the one that the container's iteration meets first; here it is the first of the
  list, which may be another one. What is proved of an eviction speaks of the evicted
  entry through its timestamp only.
\<close>

fun min_element :: "(string \<times> CacheEntry) list \<Rightarrow> (string \<times> CacheEntry) option" where
  "min_element [] = None"
| "min_element (x # xs) =
     Some (fold (\<lambda>b a. if timestamp (snd b) < timestamp (snd a) then b else a) xs x)"

definition evictCacheEntries :: "AIEngine \<Rightarrow> AIEngine" where
  "evictCacheEntries s =
     (if analysis_cache s = [] then s
      else (case min_element (analysis_cache s) of
              None \<Rightarrow> s
            | Some lru \<Rightarrow>
                s\<lparr>evictions := evictions s @ [fst lru],
                  analysis_cache := AList.delete (fst lru) (analysis_cache s)\<rparr>))"

definition storeInCache :: "int \<Rightarrow> string \<Rightarrow> AIAnalysisResult \<Rightarrow> AIEngine \<Rightarrow> AIEngine" where
  "storeInCache now k r s =
     (let s1 = (if unat (cache_max_size (config s)) \<le> length (analysis_cache s)
                then evictCacheEntries s else s);
          entry = \<lparr>key = k, result = r, timestamp = now, access_count = 1\<rparr>
      in s1\<lparr>analysis_cache := AList.update k entry (analysis_cache s1)\<rparr>)"

definition clearCache :: "AIEngine \<Rightarrow> AIEngine" where
  "clearCache s = s\<lparr>analysis_cache := []\<rparr>"

subsection \<open>Retry with exponential backoff\<close>

text \<open>
  \<open>operation\<close> is a closure over the external service: \<open>operation n\<close> is what its
  invocation number \<open>n\<close> returns. The loop's variables \<open>attempt\<close> and \<open>delay_ms\<close>
  are C++ \<open>int\<close>s. With \<open>max_retries = INT_MAX\<close> and an operation that always fails the
  loop does not end, so the loop is a partial function.
\<close>

partial_function (option) executeWithRetry_loop ::
  "(nat \<Rightarrow> AIAnalysisResult) \<Rightarrow> 32 word \<Rightarrow> AIAnalysisResult \<Rightarrow> nat \<Rightarrow> 32 word \<Rightarrow> 32 word
     \<Rightarrow> int list \<Rightarrow> (AIAnalysisResult \<times> int list) option" where
  "executeWithRetry_loop operation max_retries0 res calls attempt delay_ms slept =
     (if attempt \<le>s max_retries0 then
        (let res' = operation calls in
         if success res' then Some (res', slept)
         else (let attempt' = attempt + 1 in
               if attempt' \<le>s max_retries0
               then executeWithRetry_loop operation max_retries0 res' (Suc calls) attempt'
                      (delay_ms * 2) (slept @ [sint delay_ms])
               else executeWithRetry_loop operation max_retries0 res' (Suc calls) attempt'
                      delay_ms slept))
      else Some (res, slept))"

definition executeWithRetry ::
  "(nat \<Rightarrow> AIAnalysisResult) \<Rightarrow> 32 word \<Rightarrow> (AIAnalysisResult \<times> int list) option" where
  "executeWithRetry operation max_retries0 =
     executeWithRetry_loop operation max_retries0 default_result 0 0 100 []"

subsection \<open>The request path\<close>

text \<open>
  What one call of \<open>analyzeCode\<close> reads from outside the engine:
  \<^item> \<open>service n\<close>: the result of the call's invocation number \<open>n\<close> of
    \<open>executePythonService\<close> (the subprocess and its response file);
  \<^item> \<open>lookup_now\<close>, \<open>store_now\<close>: the system clock as \<open>isExpired\<close> and
    \<open>storeInCache\<close> read it;
  \<^item> \<open>hit_duration\<close>, \<open>total_duration\<close>: the steady clock's milliseconds since the
    start of the call, at a cache hit and after the retries.
\<close>

record call_env =
  service :: "nat \<Rightarrow> AIAnalysisResult"
  lookup_now :: int
  store_now :: int
  hit_duration :: "64 word"
  total_duration :: "64 word"

text \<open>
  \<open>storeAnalysisResult\<close> (learning) only writes log lines: it changes no state and is
  left out. \<open>None\<close> is a call whose retry loop does not return.
\<close>

definition analyzeCode ::
  "(string \<Rightarrow> string) \<Rightarrow> call_env \<Rightarrow> string \<Rightarrow> string \<Rightarrow> string \<Rightarrow> AIEngine
     \<Rightarrow> (AIAnalysisResult \<times> AIEngine) option" where
  "analyzeCode sha256_hex env code language file_path s =
     (if code = [] then
        Some (default_result\<lparr>error_message := ''Empty code provided''\<rparr>,
              s\<lparr>metrics := updateMetrics 0 False (metrics s)\<rparr>)
      else if language = [] then
        Some (default_result\<lparr>error_message := ''Language not specified''\<rparr>,
              s\<lparr>metrics := updateMetrics 0 False (metrics s)\<rparr>)
      else
        (let safe_code = sanitizeInput code;
             safe_language = sanitizeInput language;
             safe_path = sanitizeInput file_path;
             cache_key = generateCacheKey sha256_hex (config s) safe_code safe_language safe_path;
             (cached_result, s1) =
               (if enable_caching (config s) then getFromCache (lookup_now env) cache_key s
                else (None, s))
         in case cached_result of
              Some r \<Rightarrow>
                (let m = updateMetrics (hit_duration env) True (metrics s1)
                 in Some (r, s1\<lparr>metrics := m\<lparr>cache_hits := cache_hits m + 1\<rparr>\<rparr>))
            | None \<Rightarrow>
                (let s2 = (if enable_caching (config s1)
                           then s1\<lparr>metrics :=
                                  (metrics s1)\<lparr>cache_misses := cache_misses (metrics s1) + 1\<rparr>\<rparr>
                           else s1)
                 in case executeWithRetry (service env) (max_retries (config s2)) of
                      None \<Rightarrow> None
                    | Some (r0, slept) \<Rightarrow>
                        (let r = r0\<lparr>processing_time := total_duration env\<rparr>;
                             s3 = s2\<lparr>sleeps := sleeps s2 @ slept\<rparr>;
                             s4 = (if success r \<and> enable_caching (config s3)
                                   then storeInCache (store_now env) cache_key r s3 else s3)
                         in Some (r, s4\<lparr>metrics :=
                                   updateMetrics (processing_time r) (success r) (metrics s4)\<rparr>)))))"

definition getRecommendations ::
  "(string \<Rightarrow> string) \<Rightarrow> call_env \<Rightarrow> string \<Rightarrow> string \<Rightarrow> string \<Rightarrow> AIEngine
     \<Rightarrow> (string list \<times> AIEngine) option" where
  "getRecommendations sha256_hex env code language analysis_type s =
     (case analyzeCode sha256_hex env code language [] s of
        None \<Rightarrow> None
      | Some (r, s') \<Rightarrow> Some (recommendations r, s'))"

definition warmup :: "(string \<Rightarrow> string) \<Rightarrow> call_env \<Rightarrow> AIEngine \<Rightarrow> (bool \<times> AIEngine) option" where
  "warmup sha256_hex env s =
     (case analyzeCode sha256_hex env ''int main() { return 0; }'' ''cpp'' [] s of
        None \<Rightarrow> None
      | Some (r, s') \<Rightarrow> Some (success r, s'))"

text \<open>The public operations that change the engine, and a sequence of them.\<close>

datatype engine_call =
    AnalyzeCode call_env string string string
  | GetRecommendations call_env string string string
  | Warmup call_env
  | ClearCache
  | UpdateConfiguration AIEngineConfig

fun engine_step :: "(string \<Rightarrow> string) \<Rightarrow> engine_call \<Rightarrow> AIEngine \<Rightarrow> AIEngine option" where
  "engine_step h (AnalyzeCode env code language path) s =
     map_option snd (analyzeCode h env code language path s)"
| "engine_step h (GetRecommendations env code language analysis_type) s =
     map_option snd (getRecommendations h env code language analysis_type s)"
| "engine_step h (Warmup env) s = map_option snd (warmup h env s)"
| "engine_step h ClearCache s = Some (clearCache s)"
| "engine_step h (UpdateConfiguration cfg) s = Some (snd (updateConfiguration cfg s))"

fun engine_run :: "(string \<Rightarrow> string) \<Rightarrow> engine_call list \<Rightarrow> AIEngine \<Rightarrow> AIEngine option" where
  "engine_run h [] s = Some s"
| "engine_run h (c # cs) s =
     (case engine_step h c s of None \<Rightarrow> None | Some s' \<Rightarrow> engine_run h cs s')"

text \<open>
  A series of \<open>storeInCache\<close> calls, each with its key, its result and the clock it
  reads.
\<close>

fun store_all :: "(string \<times> AIAnalysisResult \<times> int) list \<Rightarrow> AIEngine \<Rightarrow> AIEngine" where
  "store_all [] s = s"
| "store_all ((k, r, now) # rest) s = store_all rest (storeInCache now k r s)"

section \<open>Findings and exceptions (include/analysis/analysis_result.h, src/core/error_handler.h)\<close>

record AnalysisResult =
  file_path :: string
  rule_id :: string
  message :: string
  severity :: string
  line_number :: "32 word"

text \<open>The constructor; its last parameter, the line, defaults to 0.\<close>

definition finding :: "string \<Rightarrow> string \<Rightarrow> string \<Rightarrow> string \<Rightarrow> 32 word \<Rightarrow> AnalysisResult" where
  "finding fp rid msg sev line =
     \<lparr>file_path = fp, rule_id = rid, message = msg, severity = sev, line_number = line\<rparr>"

text \<open>
  What a \<open>catch\<close> clause can tell apart: the two exception classes that
  \<open>analyzeDirectory\<close> catches for each file, \<open>AnalyzerException\<close> itself or another
  class derived from it, a \<open>std::exception\<close> outside that hierarchy, and a thrown
  value that is no \<open>std::exception\<close>.
\<close>

datatype exn =
    FileSystemException
  | AnalysisException
  | AnalyzerException
  | std_exception
  | unknown_exception

text \<open>
  \<open>ErrorHandler::executeWithRecovery\<close>: an \<open>AnalyzerException\<close> is handled and
  rethrown as it is, anything else is rethrown as a plain \<open>AnalyzerException\<close>. The
  handler's log and error counters are not modelled.
\<close>

fun executeWithRecovery :: "exn + 'a \<Rightarrow> exn + 'a" where
  "executeWithRecovery (Inr v) = Inr v"
| "executeWithRecovery (Inl FileSystemException) = Inl FileSystemException"
| "executeWithRecovery (Inl AnalysisException) = Inl AnalysisException"
| "executeWithRecovery (Inl AnalyzerException) = Inl AnalyzerException"
| "executeWithRecovery (Inl std_exception) = Inl AnalyzerException"
| "executeWithRecovery (Inl unknown_exception) = Inl AnalyzerException"

section \<open>The C++ analyzer (src/analysis/languages/cpp_analyzer.h)\<close>

subsection \<open>Strings and the regular expressions in use\<close>

text \<open>\<open>s.find(needle) != npos\<close>.\<close>

fun contains :: "string \<Rightarrow> string \<Rightarrow> bool" where
  "contains [] needle = (needle = [])"
| "contains (c # cs) needle = (prefix needle (c # cs) \<or> contains cs needle)"

text \<open>\<open>s.size() >= ext.size() && s.substr(s.size() - ext.size()) == ext\<close>.\<close>

definition ends_with :: "string \<Rightarrow> string \<Rightarrow> bool" where
  "ends_with s ext \<longleftrightarrow> length s \<ge> length ext \<and> drop (length s - length ext) s = ext"

text \<open>\<open>isspace\<close> and \<open>tolower\<close> of the C locale.\<close>

definition isspace :: "char \<Rightarrow> bool" where
  "isspace c \<longleftrightarrow>
     c = CHR '' '' \<or> c = CHR 0x09 \<or> c = CHR 0x0A \<or> c = CHR 0x0B \<or> c = CHR 0x0C \<or> c = CHR 0x0D"

definition to_lower :: "char \<Rightarrow> char" where
  "to_lower c =
     (let n = (of_char c :: nat) in if 65 \<le> n \<and> n \<le> 90 then char_of (n + 32) else c)"

text \<open>
  The analyzer's regular expressions (ECMAScript grammar) are of three shapes: a
  literal text, a literal text matched without regard to case, and \<open>A.*B\<close> for two
  literal texts, where \<open>.\<close> matches any character but a line feed or carriage return.
\<close>

datatype pattern = Lit string | LitIcase string | Gap string string

fun gap_then :: "string \<Rightarrow> string \<Rightarrow> bool" where
  "gap_then [] b = (b = [])"
| "gap_then (c # cs) b =
     (prefix b (c # cs) \<or> (c \<noteq> CHR 0x0A \<and> c \<noteq> CHR 0x0D \<and> gap_then cs b))"

fun search_gap :: "string \<Rightarrow> string \<Rightarrow> string \<Rightarrow> bool" where
  "search_gap [] a b = (a = [] \<and> b = [])"
| "search_gap (c # cs) a b =
     ((prefix a (c # cs) \<and> gap_then (drop (length a) (c # cs)) b) \<or> search_gap cs a b)"

fun regex_search :: "string \<Rightarrow> pattern \<Rightarrow> bool" where
  "regex_search line (Lit a) = contains line a"
| "regex_search line (LitIcase a) = contains (map to_lower line) (map to_lower a)"
| "regex_search line (Gap a b) = search_gap line a b"

text \<open>
  The lines that repeated \<open>std::getline\<close> reads from a string stream: the text is cut
  at each line feed, and nothing is read after the last line feed when no character
  follows it. \<open>cur\<close> is the line read so far.
\<close>

fun getlines :: "string \<Rightarrow> string \<Rightarrow> string list" where
  "getlines [] cur = (if cur = [] then [] else [cur])"
| "getlines (c # cs) cur =
     (if c = CHR 0x0A then cur # getlines cs [] else getlines cs (cur @ [c]))"

subsection \<open>The patterns\<close>

definition error_patterns :: "pattern list" where
  "error_patterns =
     [LitIcase ''undefined reference to'',
      Lit ''expected ';' after'',
      Lit ''use of undeclared identifier'',
      Lit ''no matching function for call'']"

definition warning_patterns :: "pattern list" where
  "warning_patterns =
     [LitIcase ''unused variable'',
      Lit ''comparison between signed and unsigned'',
      Lit ''deprecated declaration'']"

definition security_patterns :: "pattern list" where
  "security_patterns =
     [Lit ''strcpy('', Lit ''strcat('', Lit ''sprintf('', Lit ''vsprintf('', Lit ''gets('',
      Lit ''printf('', Lit ''fprintf('',
      Lit ''system('', Lit ''exec('', Lit ''popen('',
      Gap ''SELECT'' ''FROM'', Lit ''INSERT INTO'', Gap ''UPDATE'' ''SET'', Lit ''DELETE FROM'']"

subsection \<open>The checks\<close>

definition checkLine ::
  "string \<Rightarrow> 32 word \<Rightarrow> string \<Rightarrow> AnalysisResult list \<Rightarrow> AnalysisResult list" where
  "checkLine line n file_name results =
     (let results1 =
            (if line \<noteq> [] \<and> CHR ''{'' \<notin> set line \<and> CHR ''}'' \<notin> set line \<and>
                \<not> prefix ''#'' line \<and> \<not> prefix ''//'' line \<and>
                last line \<noteq> CHR '';'' \<and> last line \<noteq> CHR ''{'' \<and>
                line \<noteq> [] \<and> \<not> list_all isspace line
             then (if \<not> prefix ''if '' line \<and> \<not> prefix ''for '' line \<and>
                      \<not> prefix ''while '' line \<and> \<not> prefix ''switch '' line \<and>
                      \<not> prefix ''namespace '' line \<and> \<not> prefix ''class '' line \<and>
                      \<not> prefix ''struct '' line \<and> \<not> prefix ''enum '' line
                   then results @ [finding file_name ''MISSING_SEMICOLON''
                                     ''Possible missing semicolon'' ''WARNING'' n]
                   else results)
             else results);
          results2 =
            fold (\<lambda>p r. if regex_search line p
                         then r @ [finding file_name ''SYNTAX_ERROR''
                                     ''Potential syntax issue detected'' ''ERROR'' n]
                         else r) error_patterns results1
      in fold (\<lambda>p r. if regex_search line p
                      then r @ [finding file_name ''CODE_SMELL''
                                  ''Code quality issue'' ''WARNING'' n]
                      else r) warning_patterns results2)"

text \<open>The first loop of \<open>analyzeCode\<close>; \<open>n\<close> is \<open>line_number\<close> before the line is read.\<close>

fun check_lines ::
  "string list \<Rightarrow> 32 word \<Rightarrow> string \<Rightarrow> AnalysisResult list \<Rightarrow> AnalysisResult list" where
  "check_lines [] n file_name results = results"
| "check_lines (line # rest) n file_name results =
     check_lines rest (n + 1) file_name (checkLine line (n + 1) file_name results)"

definition checkIncludeGuard :: "string \<Rightarrow> string \<Rightarrow> AnalysisResult list \<Rightarrow> AnalysisResult list" where
  "checkIncludeGuard code file_name results =
     (if \<not> contains code ''#ifndef'' \<or> \<not> contains code ''#define''
      then results @ [finding file_name ''INCLUDE_GUARD_MISSING''
                        ''Header file missing include guard'' ''WARNING'' 0]
      else results)"

definition checkModernCpp :: "string \<Rightarrow> string \<Rightarrow> AnalysisResult list \<Rightarrow> AnalysisResult list" where
  "checkModernCpp code file_name results =
     (let results1 =
            (if contains code ''malloc('' \<or> contains code ''free(''
             then results @ [finding file_name ''USE_MODERN_MEMORY''
                ''Consider using new/delete or smart pointers instead of malloc/free''
                ''INFO'' 0]
             else results)
      in if contains code ''printf(''
         then results1 @ [finding file_name ''USE_IOSTREAMS''
                ''Consider using iostreams instead of printf'' ''INFO'' 0]
         else results1)"

definition checkAdvancedPatterns ::
  "string \<Rightarrow> string \<Rightarrow> AnalysisResult list \<Rightarrow> AnalysisResult list" where
  "checkAdvancedPatterns code file_name results =
     checkModernCpp code file_name
       (if contains file_name ''.h'' then checkIncludeGuard code file_name results
        else results)"

definition security_line ::
  "string \<Rightarrow> 32 word \<Rightarrow> string \<Rightarrow> AnalysisResult list \<Rightarrow> AnalysisResult list" where
  "security_line line n file_name results =
     fold (\<lambda>p r. if regex_search line p
                  then r @ [finding file_name ''SECURITY_VULNERABILITY''
                              ''Potential security vulnerability detected'' ''CRITICAL'' n]
                  else r) security_patterns results"

fun security_lines ::
  "string list \<Rightarrow> 32 word \<Rightarrow> string \<Rightarrow> AnalysisResult list \<Rightarrow> AnalysisResult list" where
  "security_lines [] n file_name results = results"
| "security_lines (line # rest) n file_name results =
     security_lines rest (n + 1) file_name (security_line line (n + 1) file_name results)"

definition checkSecurityPatterns ::
  "string \<Rightarrow> string \<Rightarrow> AnalysisResult list \<Rightarrow> AnalysisResult list" where
  "checkSecurityPatterns code file_name results =
     security_lines (getlines code []) 0 file_name results"

definition CppAnalyzer_analyzeCode :: "string \<Rightarrow> string \<Rightarrow> AnalysisResult list" where
  "CppAnalyzer_analyzeCode code file_name =
     checkSecurityPatterns code file_name
       (checkAdvancedPatterns code file_name
          (check_lines (getlines code []) 0 file_name []))"

text \<open>
  \<open>analyze\<close> reads the file: \<open>file_system p\<close> is the content of the file \<open>p\<close> when
  it can be opened for reading.
\<close>

definition CppAnalyzer_analyze :: "(string \<Rightarrow> string option) \<Rightarrow> string \<Rightarrow> AnalysisResult list" where
  "CppAnalyzer_analyze file_system path =
     (case file_system path of
        None \<Rightarrow> [finding path ''FILE_ERROR'' (''Cannot open file: '' @ path) ''ERROR'' 0]
      | Some code \<Rightarrow> CppAnalyzer_analyzeCode code path)"

definition CppAnalyzer_isSupportedFile :: "string \<Rightarrow> bool" where
  "CppAnalyzer_isSupportedFile path \<longleftrightarrow>
     list_ex (ends_with path)
       [''.cpp'', ''.cc'', ''.cxx'', ''.c'', ''.h'', ''.hpp'', ''.hh'', ''.hxx'']"

section \<open>The Go analyzer (src/analysis/languages/go_analyzer.h)\<close>

text \<open>
  \<open>trim\<close>, which the Go and Python analyzers define alike: the text without the
  blanks, tabs, line feeds and carriage returns at its two ends.
\<close>

definition trim :: "string \<Rightarrow> string" where
  "trim str =
     (let blank = (\<lambda>c. c = CHR '' '' \<or> c = CHR 0x09 \<or> c = CHR 0x0A \<or> c = CHR 0x0D)
      in rev (dropWhile blank (rev (dropWhile blank str))))"

text \<open>\<open>isalpha\<close> of the C locale.\<close>

definition isalpha :: "char \<Rightarrow> bool" where
  "isalpha c \<longleftrightarrow>
     (let n = (of_char c :: nat) in (65 \<le> n \<and> n \<le> 90) \<or> (97 \<le> n \<and> n \<le> 122))"

text \<open>
  The regular expressions that the analyzer's checks build, in the order of the source:
  \<^item> \<open>Go_package_clause\<close>: \<^verbatim>\<open>^package\s+\w+\<close>
  \<^item> \<open>Go_import_group\<close>: \<^verbatim>\<open>import\s+\([^)]*\"[^\"]+\"[^)]*\)\<close>
  \<^item> \<open>Go_import_single\<close>: \<^verbatim>\<open>import\s+\"[^\"]+\"\<close>
  \<^item> \<open>Go_err_assigned\<close>: \<^verbatim>\<open>err\s*:?=\s*\w+\([^)]*\)\<close>
  \<^item> \<open>Go_err_compared\<close>: \<^verbatim>\<open>err\s*!= nil\<close>
  \<^item> \<open>Go_if_err\<close>: \<^verbatim>\<open>if\s+err\<close>
  \<^item> \<open>Go_lower_case_func\<close>: \<^verbatim>\<open>func\s+[a-z]\w*\s*\(\<close>
  \<^item> \<open>Go_method\<close>: \<^verbatim>\<open>func\s+\(\w+\s+\*?\w+\)\<close>
  \<^item> \<open>Go_panic_call\<close>: \<^verbatim>\<open>panic\([^)]*\)\<close>
  \<^item> \<open>Go_return_at_end\<close>: \<^verbatim>\<open>return\s*$\<close>
  \<^item> \<open>Go_func_with_results\<close>: \<^verbatim>\<open>func\s+\w+\([^)]*\)\s*\([^)]*\)\s*\{\<close>
  \<^item> \<open>Go_go_statement\<close>: \<^verbatim>\<open>go\s+\<close>
  \<^item> \<open>Go_indexed_assignment\<close>: \<^verbatim>\<open>\w+\s*:?=\s*&?\w+\[[^]]+\]\<close>
  \<^item> \<open>Go_func_init\<close>: \<^verbatim>\<open>func init\(\)\<close>

  \<open>std::regex_search\<close> belongs to the standard library and is a parameter of the
  analyzer: \<open>search r s\<close> tells whether the expression \<open>r\<close> matches somewhere in
  \<open>s\<close>. The lists \<open>error_patterns_\<close> and \<open>warning_patterns_\<close> of the class are filled
  by the constructor, and no check reads them.
\<close>

datatype go_regex =
    Go_package_clause
  | Go_import_group
  | Go_import_single
  | Go_err_assigned
  | Go_err_compared
  | Go_if_err
  | Go_lower_case_func
  | Go_method
  | Go_panic_call
  | Go_return_at_end
  | Go_func_with_results
  | Go_go_statement
  | Go_indexed_assignment
  | Go_func_init

definition checkGoSyntax ::
  "(go_regex \<Rightarrow> string \<Rightarrow> bool) \<Rightarrow> string \<Rightarrow> 32 word \<Rightarrow> string \<Rightarrow> AnalysisResult list
     \<Rightarrow> AnalysisResult list" where
  "checkGoSyntax search line n file_name results =
     (let results1 =
            (if n = 1 \<and> \<not> search Go_package_clause line
             then results @ [finding file_name ''MISSING_PACKAGE''
                               ''Go file must start with package declaration'' ''ERROR'' n]
             else results);
          results2 =
            (if search Go_import_group line \<or> search Go_import_single line
             then results1 @ [finding file_name ''POTENTIAL_UNUSED_IMPORT''
                                ''Verify all imports are used'' ''INFO'' n]
             else results1)
      in if search Go_err_assigned line \<and> \<not> search Go_err_compared line \<and>
            \<not> search Go_if_err line
         then results2 @ [finding file_name ''UNCHECKED_ERROR''
                            ''Error return value not checked'' ''WARNING'' n]
         else results2)"

text \<open>
  The second check repeats the search for \<open>Go_method\<close> with a group around the
  receiver's name: \<open>receiver_name line\<close> is that group when the expression matches.
  \<open>receiver[0]\<close> of an empty string is the terminating zero.
\<close>

definition checkGoConventions ::
  "(go_regex \<Rightarrow> string \<Rightarrow> bool) \<Rightarrow> (string \<Rightarrow> string option) \<Rightarrow> string \<Rightarrow> 32 word \<Rightarrow> string
     \<Rightarrow> AnalysisResult list \<Rightarrow> AnalysisResult list" where
  "checkGoConventions search receiver_name line n file_name results =
     (let results1 =
            (if search Go_lower_case_func line \<and> \<not> contains file_name ''_test.go''
             then results @ [finding file_name ''UNEXPORTED_FUNCTION''
                               ''Consider exporting function if it needs external access''
                               ''INFO'' n]
             else results);
          results2 =
            (if search Go_method line
             then (case receiver_name line of
                     None \<Rightarrow> results1
                   | Some receiver \<Rightarrow>
                       if length receiver > 1 \<or>
                          \<not> isalpha (case receiver of [] \<Rightarrow> CHR 0x00 | c # cs \<Rightarrow> c)
                       then results1 @ [finding file_name ''RECEIVER_NAME''
                                          ''Receiver name should be 1-2 letters'' ''INFO'' n]
                       else results1)
             else results1)
      in if length line > 100
         then results2 @ [finding file_name ''LINE_TOO_LONG''
                            ''Line exceeds 100 characters (Go convention)'' ''WARNING'' n]
         else results2)"

definition checkCommonErrors ::
  "(go_regex \<Rightarrow> string \<Rightarrow> bool) \<Rightarrow> string \<Rightarrow> 32 word \<Rightarrow> string \<Rightarrow> AnalysisResult list
     \<Rightarrow> AnalysisResult list" where
  "checkCommonErrors search line n file_name results =
     (let results1 =
            (if search Go_panic_call line
             then results @ [finding file_name ''USE_OF_PANIC''
                               ''Avoid using panic for normal error handling'' ''WARNING'' n]
             else results);
          results2 =
            (if search Go_return_at_end line \<and> search Go_func_with_results line
             then results1 @ [finding file_name ''NAKED_RETURN''
                                ''Naked returns can reduce code clarity'' ''INFO'' n]
             else results1)
      in if search Go_go_statement line \<and> search Go_indexed_assignment line
         then results2 @ [finding file_name ''POTENTIAL_DATA_RACE''
                            ''Potential data race with slice/map in goroutine'' ''WARNING'' n]
         else results2)"

text \<open>
  The loop of \<open>analyzeCode\<close>; \<open>n\<close> is \<open>line_number\<close> before the line is read. A line
  inside a block comment, one that opens a block comment, an empty line and a line
  comment are passed over.
\<close>

fun go_lines ::
  "(go_regex \<Rightarrow> string \<Rightarrow> bool) \<Rightarrow> (string \<Rightarrow> string option) \<Rightarrow> string list \<Rightarrow> 32 word \<Rightarrow> bool
     \<Rightarrow> string \<Rightarrow> AnalysisResult list \<Rightarrow> AnalysisResult list" where
  "go_lines search receiver_name [] n in_block_comment file_name results = results"
| "go_lines search receiver_name (line # rest) n in_block_comment file_name results =
     (if in_block_comment
      then go_lines search receiver_name rest (n + 1) (\<not> contains (trim line) ''*/'')
             file_name results
      else if contains (trim line) ''/*''
      then go_lines search receiver_name rest (n + 1) True file_name results
      else if trim line = [] \<or> prefix ''//'' (trim line)
      then go_lines search receiver_name rest (n + 1) False file_name results
      else go_lines search receiver_name rest (n + 1) False file_name
             (checkCommonErrors search line (n + 1) file_name
                (checkGoConventions search receiver_name line (n + 1) file_name
                   (checkGoSyntax search line (n + 1) file_name results))))"

definition checkFileLevelIssues ::
  "(go_regex \<Rightarrow> string \<Rightarrow> bool) \<Rightarrow> string \<Rightarrow> string \<Rightarrow> AnalysisResult list \<Rightarrow> AnalysisResult list" where
  "checkFileLevelIssues search code file_name results =
     (let results1 =
            (if contains code ''package main'' \<and> \<not> contains code ''func main()''
             then results @ [finding file_name ''MISSING_MAIN_FUNCTION''
                               ''Main package should contain func main()'' ''ERROR'' 0]
             else results)
      in if search Go_func_init code
         then results1 @ [finding file_name ''INIT_FUNCTION''
                ''Be cautious with init() functions - they can make code harder to test''
                ''INFO'' 0]
         else results1)"

definition checkGoModuleStructure ::
  "string \<Rightarrow> string \<Rightarrow> AnalysisResult list \<Rightarrow> AnalysisResult list" where
  "checkGoModuleStructure code file_name results =
     (let results1 =
            (if contains code ''// +build''
             then results @ [finding file_name ''BUILD_CONSTRAINTS''
                               ''Consider using go:build constraints instead of +build''
                               ''INFO'' 0]
             else results)
      in if contains code ''fmt.Errorf'' \<and> \<not> contains code ''%w''
         then results1 @ [finding file_name ''ERROR_WRAPPING''
                ''Consider using %w with fmt.Errorf for error wrapping'' ''INFO'' 0]
         else results1)"

definition GoAnalyzer_analyzeCode ::
  "(go_regex \<Rightarrow> string \<Rightarrow> bool) \<Rightarrow> (string \<Rightarrow> string option) \<Rightarrow> string \<Rightarrow> string
     \<Rightarrow> AnalysisResult list" where
  "GoAnalyzer_analyzeCode search receiver_name code file_name =
     checkGoModuleStructure code file_name
       (checkFileLevelIssues search code file_name
          (go_lines search receiver_name (getlines code []) 0 False file_name []))"

definition GoAnalyzer_analyze ::
  "(go_regex \<Rightarrow> string \<Rightarrow> bool) \<Rightarrow> (string \<Rightarrow> string option) \<Rightarrow> (string \<Rightarrow> string option)
     \<Rightarrow> string \<Rightarrow> AnalysisResult list" where
  "GoAnalyzer_analyze search receiver_name file_system path =
     (case file_system path of
        None \<Rightarrow> [finding path ''FILE_ERROR'' (''Cannot open file: '' @ path) ''ERROR'' 0]
      | Some code \<Rightarrow> GoAnalyzer_analyzeCode search receiver_name code path)"

section \<open>The Python analyzer (src/analysis/languages/python_analyzer.h)\<close>

text \<open>
  The regular expressions of the analyzer: those of \<open>error_patterns_\<close>, which
  \<open>checkLineContent\<close> tries in turn, and those that the checks build.
  \<^item> \<open>Py_bare_except_icase\<close>: \<^verbatim>\<open>except\s*:\<close>, without regard to case
  \<^item> \<open>Py_broad_except\<close>: \<^verbatim>\<open>except\s+Exception\s*:\<close>, without regard to case
  \<^item> \<open>Py_wildcard_import\<close>: \<^verbatim>\<open>from\s+\w+\s+import\s*\*\<close>
  \<^item> \<open>Py_print_statement\<close>: \<^verbatim>\<open>print\s+[^(]\<close>
  \<^item> \<open>Py_iter_methods\<close>: \<^verbatim>\<open>\.iterkeys\(\)|\.itervalues\(\)|\.iteritems\(\)\<close>
  \<^item> \<open>Py_tight_operator\<close>: \<^verbatim>\<open>\w[=+\-*/<>!]+\w\<close>
  \<^item> \<open>Py_colon_at_end\<close>: \<^verbatim>\<open>:\s*$\<close>
  \<^item> \<open>Py_bare_except\<close>: \<^verbatim>\<open>except\s*:\<close>
  \<^item> \<open>Py_list_default\<close>: \<^verbatim>\<open>def\s+\w+\([^)]*=\s*\[\<close>
  \<^item> \<open>Py_dict_default\<close>: \<^verbatim>\<open>def\s+\w+\([^)]*=\s*\{\<close>
  \<^item> \<open>Py_equals_none\<close>: \<^verbatim>\<open>==\s*None\<close>
  \<^item> \<open>Py_print_word\<close>: \<^verbatim>\<open>\bprint\b[^(]\<close>
  \<^item> \<open>Py_import_list\<close>: \<^verbatim>\<open>import\s+\w+\s*,\s*\w+\<close>

  As for the Go analyzer, \<open>search\<close> is \<open>std::regex_search\<close>. The list
  \<open>warning_patterns_\<close> is never read, and the imports that \<open>trackImports\<close> collects
  are never used.
\<close>

datatype python_regex =
    Py_bare_except_icase
  | Py_broad_except
  | Py_wildcard_import
  | Py_print_statement
  | Py_iter_methods
  | Py_tight_operator
  | Py_colon_at_end
  | Py_bare_except
  | Py_list_default
  | Py_dict_default
  | Py_equals_none
  | Py_print_word
  | Py_import_list

definition python_error_patterns :: "python_regex list" where
  "python_error_patterns =
     [Py_bare_except_icase, Py_broad_except, Py_wildcard_import, Py_print_statement,
      Py_iter_methods]"

text \<open>
  \<open>checkIndentation\<close> counts the leading blanks in an \<open>int\<close>; a tab after them is
  reported and ends the check.
\<close>

definition checkIndentation ::
  "string \<Rightarrow> 32 word \<Rightarrow> string \<Rightarrow> AnalysisResult list \<Rightarrow> AnalysisResult list" where
  "checkIndentation line n file_name results =
     (let spaces = (word_of_nat (length (takeWhile (\<lambda>c. c = CHR '' '') line)) :: 32 word);
          rest = dropWhile (\<lambda>c. c = CHR '' '') line
      in if line = [] then results
         else if rest \<noteq> [] \<and> hd rest = CHR 0x09
         then results @ [finding file_name ''TABS_USED''
                           ''Use spaces instead of tabs for indentation'' ''WARNING'' n]
         else if sint spaces mod 4 \<noteq> 0 \<and> 0 < sint spaces
         then results @ [finding file_name ''INDENTATION_ERROR''
                           ''Indentation should be multiple of 4 spaces'' ''ERROR'' n]
         else results)"

definition checkLineContent ::
  "(python_regex \<Rightarrow> string \<Rightarrow> bool) \<Rightarrow> string \<Rightarrow> 32 word \<Rightarrow> string \<Rightarrow> AnalysisResult list
     \<Rightarrow> AnalysisResult list" where
  "checkLineContent search line n file_name results =
     (let results1 =
            (if search Py_tight_operator line \<and> \<not> search Py_colon_at_end line
             then results @ [finding file_name ''MISSING_WHITESPACE''
                               ''Missing whitespace around operator'' ''WARNING'' n]
             else results);
          results2 =
            (if line \<noteq> [] \<and> isspace (last line)
             then results1 @ [finding file_name ''TRAILING_WHITESPACE''
                                ''Trailing whitespace detected'' ''INFO'' n]
             else results1);
          results3 =
            (if length line > 79 \<and> take 1 line \<noteq> [] \<and>
                \<not> contains line ''#'' \<and> \<not> contains line [CHR 0x22, CHR 0x22, CHR 0x22] \<and>
                \<not> contains line [CHR 0x27, CHR 0x27, CHR 0x27]
             then results2 @ [finding file_name ''LINE_TOO_LONG''
                                ''Line exceeds 79 characters (PEP8)'' ''WARNING'' n]
             else results2)
      in fold (\<lambda>p r. if search p line
                      then r @ [finding file_name ''CODE_STYLE_ISSUE''
                                  (if search Py_bare_except line then ''Avoid bare except clause''
                                   else ''Code style issue detected'')
                                  ''WARNING'' n]
                      else r) python_error_patterns results3)"

definition checkPythonSpecifics ::
  "(python_regex \<Rightarrow> string \<Rightarrow> bool) \<Rightarrow> string \<Rightarrow> 32 word \<Rightarrow> string \<Rightarrow> AnalysisResult list
     \<Rightarrow> AnalysisResult list" where
  "checkPythonSpecifics search line n file_name results =
     (let results1 =
            (if search Py_list_default line \<or> search Py_dict_default line
             then results @ [finding file_name ''MUTABLE_DEFAULT_ARG''
                    ''Mutable default argument detected - can lead to unexpected behavior''
                    ''WARNING'' n]
             else results);
          results2 =
            (if search Py_equals_none line
             then results1 @ [finding file_name ''USE_IS_NONE''
                    ''Use 'is None' instead of '== None' for identity check'' ''INFO'' n]
             else results1)
      in if search Py_print_word line
         then results2 @ [finding file_name ''PYTHON2_PRINT''
                            ''Python 2 style print statement detected'' ''ERROR'' n]
         else results2)"

text \<open>
  The loop of \<open>analyzeCode\<close>: an empty line and a comment are passed over; the
  indentation is checked on the line as read, the rest on the trimmed line.
\<close>

fun python_lines ::
  "(python_regex \<Rightarrow> string \<Rightarrow> bool) \<Rightarrow> string list \<Rightarrow> 32 word \<Rightarrow> string \<Rightarrow> AnalysisResult list
     \<Rightarrow> AnalysisResult list" where
  "python_lines search [] n file_name results = results"
| "python_lines search (line # rest) n file_name results =
     (if trim line = [] \<or> hd (trim line) = CHR ''#''
      then python_lines search rest (n + 1) file_name results
      else python_lines search rest (n + 1) file_name
             (checkPythonSpecifics search (trim line) (n + 1) file_name
                (checkLineContent search (trim line) (n + 1) file_name
                   (checkIndentation line (n + 1) file_name results))))"

definition checkAdvancedPythonPatterns ::
  "string \<Rightarrow> string \<Rightarrow> AnalysisResult list \<Rightarrow> AnalysisResult list" where
  "checkAdvancedPythonPatterns code file_name results =
     (let results1 =
            (if contains file_name ''__init__.py'' \<and> (code = [] \<or> trim code = [])
             then results @ [finding file_name ''EMPTY_INIT'' ''__init__.py file is empty''
                               ''INFO'' 0]
             else results)
      in if contains file_name ''.py'' \<and> take 3 code \<noteq> ''#!/''
         then results1 @ [finding file_name ''MISSING_SHEBANG''
                            ''Consider adding shebang for executable scripts'' ''INFO'' 1]
         else results1)"

definition checkPEP8Violations ::
  "(python_regex \<Rightarrow> string \<Rightarrow> bool) \<Rightarrow> string \<Rightarrow> string \<Rightarrow> AnalysisResult list
     \<Rightarrow> AnalysisResult list" where
  "checkPEP8Violations search code file_name results =
     (let results1 =
            (if search Py_import_list code
             then results @ [finding file_name ''MULTIPLE_IMPORTS''
                               ''Import each module on separate line (PEP8)'' ''INFO'' 0]
             else results)
      in if search Py_wildcard_import code
         then results1 @ [finding file_name ''WILDCARD_IMPORT''
                            ''Avoid wildcard imports (from module import *)'' ''WARNING'' 0]
         else results1)"

definition PythonAnalyzer_analyzeCode ::
  "(python_regex \<Rightarrow> string \<Rightarrow> bool) \<Rightarrow> string \<Rightarrow> string \<Rightarrow> AnalysisResult list" where
  "PythonAnalyzer_analyzeCode search code file_name =
     checkPEP8Violations search code file_name
       (checkAdvancedPythonPatterns code file_name
          (python_lines search (getlines code []) 0 file_name []))"

definition PythonAnalyzer_analyze ::
  "(python_regex \<Rightarrow> string \<Rightarrow> bool) \<Rightarrow> (string \<Rightarrow> string option) \<Rightarrow> string
     \<Rightarrow> AnalysisResult list" where
  "PythonAnalyzer_analyze search file_system path =
     (case file_system path of
        None \<Rightarrow> [finding path ''FILE_ERROR'' (''Cannot open file: '' @ path) ''ERROR'' 0]
      | Some code \<Rightarrow> PythonAnalyzer_analyzeCode search code path)"

section \<open>The Java and JavaScript analyzers (java_analyzer.h, javascript_analyzer.h)\<close>

definition JavaAnalyzer_analyzeCode :: "string \<Rightarrow> string \<Rightarrow> AnalysisResult list" where
  "JavaAnalyzer_analyzeCode code file_name =
     [finding file_name ''JAVA_PLACEHOLDER'' ''Java code analysis not yet implemented''
        ''INFO'' 0]"

definition JavaScriptAnalyzer_analyzeCode :: "string \<Rightarrow> string \<Rightarrow> AnalysisResult list" where
  "JavaScriptAnalyzer_analyzeCode code file_name =
     [finding file_name ''JS_PLACEHOLDER'' ''JavaScript code analysis not yet implemented''
        ''INFO'' 0]"

section \<open>The analyzer registry (base_analyzer.h and the analyzers' isSupportedFile)\<close>

text \<open>
  \<open>BaseAnalyzer\<close> as the orchestrator uses it. Both members may throw. \<open>analyze\<close>
  reads the file system.
\<close>

record Analyzer =
  isSupportedFile :: "string \<Rightarrow> exn + bool"
  analyze :: "(string \<Rightarrow> string option) \<Rightarrow> string \<Rightarrow> exn + AnalysisResult list"

definition CppAnalyzer :: Analyzer where
  "CppAnalyzer =
     \<lparr>isSupportedFile = (\<lambda>path. Inr (CppAnalyzer_isSupportedFile path)),
      analyze = (\<lambda>file_system path. Inr (CppAnalyzer_analyze file_system path))\<rparr>"

definition JavaAnalyzer :: Analyzer where
  "JavaAnalyzer =
     \<lparr>isSupportedFile =
        (\<lambda>path. Inr (length path \<ge> 5 \<and> drop (length path - 5) path = ''.java'')),
      analyze =
        (\<lambda>file_system path.
           Inr [finding path ''JAVA_PLACEHOLDER'' ''Java analysis not yet implemented''
                  ''INFO'' 0])\<rparr>"

text \<open>
  \<open>JavaScriptAnalyzer::isSupportedFile\<close> evaluates \<open>substr(size() - 4)\<close> for every
  path of three or more characters that does not end in \<open>.js\<close>; for a path of exactly
  three characters the position wraps around and \<open>substr\<close> throws
  \<open>std::out_of_range\<close>.
\<close>

definition JavaScriptAnalyzer_isSupportedFile :: "string \<Rightarrow> exn + bool" where
  "JavaScriptAnalyzer_isSupportedFile path =
     (if length path < 3 then Inr False
      else if drop (length path - 3) path = ''.js'' then Inr True
      else if length path < 4 then Inl std_exception
      else Inr (drop (length path - 4) path = ''.jsx'' \<or>
                drop (length path - 3) path = ''.ts'' \<or>
                drop (length path - 4) path = ''.tsx''))"

definition JavaScriptAnalyzer :: Analyzer where
  "JavaScriptAnalyzer =
     \<lparr>isSupportedFile = JavaScriptAnalyzer_isSupportedFile,
      analyze =
        (\<lambda>file_system path.
           Inr [finding path ''JS_PLACEHOLDER'' ''JavaScript analysis not yet implemented''
                  ''INFO'' 0])\<rparr>"

text \<open>
  The Go and Python analyzers dispatch on the extension like the C++ one. The registry
  takes their \<open>analyze\<close> as a parameter, so that what is proved of the manager holds
  whatever the library's regular expressions match: with \<open>search\<close> and
  \<open>receiver_name\<close> those of the library, the two are
  \<open>\<lambda>fs p. Inr (GoAnalyzer_analyze search receiver_name fs p)\<close> and
  \<open>\<lambda>fs p. Inr (PythonAnalyzer_analyze search fs p)\<close>.
\<close>

definition GoAnalyzer ::
  "((string \<Rightarrow> string option) \<Rightarrow> string \<Rightarrow> exn + AnalysisResult list) \<Rightarrow> Analyzer" where
  "GoAnalyzer go_analyze =
     \<lparr>isSupportedFile = (\<lambda>path. Inr (list_ex (ends_with path) [''.go''])),
      analyze = go_analyze\<rparr>"

definition PythonAnalyzer ::
  "((string \<Rightarrow> string option) \<Rightarrow> string \<Rightarrow> exn + AnalysisResult list) \<Rightarrow> Analyzer" where
  "PythonAnalyzer python_analyze =
     \<lparr>isSupportedFile = (\<lambda>path. Inr (list_ex (ends_with path) [''.py'', ''.pyw'', ''.pyi''])),
      analyze = python_analyze\<rparr>"

text \<open>
  \<open>initializeAnalyzers\<close> fills a \<open>std::map\<close> keyed by "cpp", "python", "go", "java"
  and "javascript"; the list is the map in its iteration order, the order of the keys.
\<close>

definition initializeAnalyzers ::
  "((string \<Rightarrow> string option) \<Rightarrow> string \<Rightarrow> exn + AnalysisResult list) \<Rightarrow>
   ((string \<Rightarrow> string option) \<Rightarrow> string \<Rightarrow> exn + AnalysisResult list) \<Rightarrow> Analyzer list" where
  "initializeAnalyzers go_analyze python_analyze =
     [CppAnalyzer, GoAnalyzer go_analyze, JavaAnalyzer, JavaScriptAnalyzer,
      PythonAnalyzer python_analyze]"

fun getAnalyzerForFile :: "Analyzer list \<Rightarrow> string \<Rightarrow> exn + Analyzer option" where
  "getAnalyzerForFile [] path = Inr None"
| "getAnalyzerForFile (a # rest) path =
     (case isSupportedFile a path of
        Inl e \<Rightarrow> Inl e
      | Inr supported \<Rightarrow> if supported then Inr (Some a) else getAnalyzerForFile rest path)"

section \<open>The analysis manager (src/analysis/analysis_manager.cpp)\<close>

text \<open>
  What the manager works with. The \<open>AIEngine\<close> members that \<open>analyzeFile\<close> calls,
  \<open>isAvailable\<close> and \<open>enhanceAnalysis\<close>, are not among the repository's files:
  \<open>ai_available p\<close> is the value of \<open>ai_engine_ && ai_engine_->isAvailable()\<close> when
  the file \<open>p\<close> is analysed, and \<open>enhanceAnalysis\<close> is a parameter.
\<close>

record manager_env =
  analyzers :: "Analyzer list"
  file_system :: "string \<Rightarrow> string option"
  ai_available :: "string \<Rightarrow> bool"
  enhanceAnalysis :: "AnalysisResult list \<Rightarrow> string \<Rightarrow> string \<Rightarrow> exn + AnalysisResult list"

text \<open>
  \<open>analyzeFile\<close>; \<open>cancelled\<close> is the value of the atomic flag \<open>analysis_cancelled_\<close>
  that the call reads. A file that cannot be opened gives an empty \<open>code_context\<close>.
\<close>

definition analyzeFile :: "manager_env \<Rightarrow> bool \<Rightarrow> string \<Rightarrow> exn + AnalysisResult list" where
  "analyzeFile env cancelled path =
     (if cancelled then Inl AnalysisException
      else executeWithRecovery
        (case getAnalyzerForFile (analyzers env) path of
           Inl e \<Rightarrow> Inl e
         | Inr None \<Rightarrow>
             Inr [finding path ''UNSUPPORTED_LANGUAGE'' ''File type not supported'' ''ERROR'' 0]
         | Inr (Some analyzer) \<Rightarrow>
             (let code_context = (case file_system env path of None \<Rightarrow> [] | Some c \<Rightarrow> c)
              in case analyze analyzer (file_system env) path of
                   Inl e \<Rightarrow> Inl e
                 | Inr results \<Rightarrow>
                     if ai_available env path then enhanceAnalysis env results path code_context
                     else Inr results)))"

subsection \<open>The serial scan\<close>

text \<open>
  What \<open>recursive_directory_iterator\<close> yields, in order: a regular file, an entry of
  another kind, or a \<open>filesystem_error\<close> (from the constructor, the increment or
  \<open>is_regular_file\<close>), after which nothing more is read.
\<close>

datatype dir_entry = RegularFile string | OtherEntry string | IterationError

text \<open>
  One turn of the loop of \<open>analyzeDirectory\<close>: the entry, the value of
  \<open>analysis_cancelled_\<close> read at the head of the loop body, and the value read by
  \<open>analyzeFile\<close>. Another thread sets and resets the flag, so each read is an input.
\<close>

datatype scan_step = Step dir_entry bool bool

type_synonym result_map = "string \<rightharpoonup> AnalysisResult list"

text \<open>
  The loop inside the lambda: the exception that leaves it, if any, and
  \<open>all_results\<close>, which the lambda captures by reference.
\<close>

fun scan :: "manager_env \<Rightarrow> scan_step list \<Rightarrow> result_map \<Rightarrow> exn option \<times> result_map" where
  "scan env [] all_results = (None, all_results)"
| "scan env (Step IterationError cancel_loop cancel_file # rest) all_results =
     (Some std_exception, all_results)"
| "scan env (Step (OtherEntry path) cancel_loop cancel_file # rest) all_results =
     (if cancel_loop then (Some AnalysisException, all_results)
      else scan env rest all_results)"
| "scan env (Step (RegularFile path) cancel_loop cancel_file # rest) all_results =
     (if cancel_loop then (Some AnalysisException, all_results)
      else (case analyzeFile env cancel_file path of
              Inr file_results \<Rightarrow>
                scan env rest
                  (if file_results \<noteq> [] then all_results(path \<mapsto> file_results)
                   else all_results)
            | Inl FileSystemException \<Rightarrow> scan env rest all_results
            | Inl AnalysisException \<Rightarrow> scan env rest all_results
            | Inl e \<Rightarrow> (Some e, all_results)))"

text \<open>
  \<open>analyzeDirectory\<close>: the lambda runs under \<open>executeWithRecovery\<close>, and the
  function catches \<open>AnalyzerException\<close> and the classes derived from it. \<open>Inl\<close> is an
  exception that reaches the caller.
\<close>

definition analyzeDirectory :: "manager_env \<Rightarrow> scan_step list \<Rightarrow> exn + result_map" where
  "analyzeDirectory env steps =
     (case scan env steps Map.empty of
        (None, all_results) \<Rightarrow> Inr all_results
      | (Some e, all_results) \<Rightarrow>
          (case executeWithRecovery (Inl e :: exn + unit) of
             Inl FileSystemException \<Rightarrow> Inr all_results
           | Inl AnalysisException \<Rightarrow> Inr all_results
           | Inl AnalyzerException \<Rightarrow> Inr all_results
           | Inl e' \<Rightarrow> Inl e'
           | Inr u \<Rightarrow> Inr all_results))"

text \<open>A scan during which the flag is never seen set.\<close>

definition uncancelled :: "dir_entry list \<Rightarrow> scan_step list" where
  "uncancelled entries = map (\<lambda>e. Step e False False) entries"

subsection \<open>The parallel scan\<close>

text \<open>
  \<open>files_to_analyze\<close>: the regular files for which an analyzer is registered.
\<close>

fun collect_files :: "Analyzer list \<Rightarrow> dir_entry list \<Rightarrow> string list \<Rightarrow> exn + string list" where
  "collect_files registry [] files_to_analyze = Inr files_to_analyze"
| "collect_files registry (IterationError # rest) files_to_analyze = Inl std_exception"
| "collect_files registry (OtherEntry path # rest) files_to_analyze =
     collect_files registry rest files_to_analyze"
| "collect_files registry (RegularFile path # rest) files_to_analyze =
     (case getAnalyzerForFile registry path of
        Inl e \<Rightarrow> Inl e
      | Inr None \<Rightarrow> collect_files registry rest files_to_analyze
      | Inr (Some a) \<Rightarrow> collect_files registry rest (files_to_analyze @ [path]))"

text \<open>
  A worker is at the head of its loop, has passed the loop condition and is about to
  take an index, holds an index whose file it analyses, or has left the loop.
\<close>

datatype worker = AtLoopHead | Claiming | Analysing nat | Finished

record pstate =
  current_index :: nat
  has_errors :: bool
  all_results :: result_map
  workers :: "worker list"

text \<open>
  One atomic step of worker \<open>w\<close>; \<open>flag\<close> is the value of \<open>analysis_cancelled_\<close>
  that the worker reads during the step (in the loop condition, or in \<open>analyzeFile\<close>).
  The analysis of a file touches no shared variable, so it is one step together with
  the insertion under the mutex, or with the assignment to \<open>has_errors\<close> in the
  handler, which catches every \<open>std::exception\<close>.
\<close>

definition worker_step ::
  "manager_env \<Rightarrow> string list \<Rightarrow> nat \<Rightarrow> bool \<Rightarrow> pstate \<Rightarrow> pstate" where
  "worker_step env files w flag st =
     (if w \<ge> length (workers st) then st
      else case workers st ! w of
        Finished \<Rightarrow> st
      | AtLoopHead \<Rightarrow>
          (if \<not> flag \<and> \<not> has_errors st
           then st\<lparr>workers := (workers st)[w := Claiming]\<rparr>
           else st\<lparr>workers := (workers st)[w := Finished]\<rparr>)
      | Claiming \<Rightarrow>
          (let index = current_index st;
               st1 = st\<lparr>current_index := index + 1\<rparr>
           in if index \<ge> length files
              then st1\<lparr>workers := (workers st1)[w := Finished]\<rparr>
              else st1\<lparr>workers := (workers st1)[w := Analysing index]\<rparr>)
      | Analysing index \<Rightarrow>
          (case analyzeFile env flag (files ! index) of
             Inr file_results \<Rightarrow>
               (if file_results \<noteq> []
                then st\<lparr>all_results := (all_results st)(files ! index \<mapsto> file_results),
                        workers := (workers st)[w := AtLoopHead]\<rparr>
                else st\<lparr>workers := (workers st)[w := AtLoopHead]\<rparr>)
           | Inl unknown_exception \<Rightarrow> st\<lparr>workers := (workers st)[w := Finished]\<rparr>
           | Inl e \<Rightarrow> st\<lparr>has_errors := True, workers := (workers st)[w := AtLoopHead]\<rparr>))"

fun run_workers ::
  "manager_env \<Rightarrow> string list \<Rightarrow> (nat \<times> bool) list \<Rightarrow> pstate \<Rightarrow> pstate" where
  "run_workers env files [] st = st"
| "run_workers env files ((w, flag) # schedule) st =
     run_workers env files schedule (worker_step env files w flag st)"

definition all_finished :: "pstate \<Rightarrow> bool" where
  "all_finished st \<longleftrightarrow> list_all (\<lambda>w. w = Finished) (workers st)"

text \<open>
  \<open>analyzeDirectoryParallel\<close> under a schedule of its workers' steps. The function
  returns once every worker has left its loop: \<open>None\<close> is a schedule that stops
  before that. The function's handler catches every \<open>std::exception\<close> of the
  enumeration.
\<close>

definition analyzeDirectoryParallel ::
  "manager_env \<Rightarrow> dir_entry list \<Rightarrow> 32 word \<Rightarrow> (nat \<times> bool) list
     \<Rightarrow> (exn + result_map) option" where
  "analyzeDirectoryParallel env entries max_threads schedule =
     (case collect_files (analyzers env) entries [] of
        Inl unknown_exception \<Rightarrow> Some (Inl unknown_exception)
      | Inl e \<Rightarrow> Some (Inr Map.empty)
      | Inr files \<Rightarrow>
          (let num_threads = min (sint max_threads) (sint (word_of_nat (length files) :: 32 word));
               st0 = \<lparr>current_index = 0, has_errors = False, all_results = Map.empty,
                      workers = replicate (nat num_threads) AtLoopHead\<rparr>;
               st = run_workers env files schedule st0
           in if all_finished st then Some (Inr (all_results st)) else None))"

section \<open>Predicates and example inputs used in the statements\<close>

text \<open>Every cached result is a successful one.\<close>

definition cache_all_successful :: "AIEngine \<Rightarrow> bool" where
  "cache_all_successful s \<longleftrightarrow> list_all (\<lambda>(k, e). success (result e)) (analysis_cache s)"

text \<open>
  Two environments of a call: one in which every invocation of the service fails, as
  it does when the subprocess exits with a code other than 0, and one in which every
  invocation returns a successful response.
\<close>

definition service_down :: call_env where
  "service_down =
     \<lparr>service = (\<lambda>n. default_result\<lparr>error_message := ''AI service exited with code 1: ''\<rparr>),
      lookup_now = 0, store_now = 0, hit_duration = 0, total_duration = 700\<rparr>"

definition service_up :: call_env where
  "service_up =
     \<lparr>service = (\<lambda>n. default_result\<lparr>success := True, analysis := ''no issues'',
                                      recommendations := [''use strncpy'']\<rparr>),
      lookup_now = 1000, store_now = 2000, hit_duration = 1, total_duration = 40\<rparr>"




text \<open>
  An example directory: \<open>d/a.cpp\<close> is a source file without findings,
  \<open>d/b.cpp\<close> calls \<open>strcpy\<close>, and \<open>d/u.cpp\<close> cannot be opened. No AI engine is
  available. The Go and Python analyzers are parameters.
\<close>

definition example_files :: "string \<Rightarrow> string option" where
  "example_files path =
     (if path = ''d/a.cpp'' then Some ''int main() { return 0; }''
      else if path = ''d/b.cpp'' then Some ''strcpy(a, b);''
      else None)"

definition example_env ::
  "((string \<Rightarrow> string option) \<Rightarrow> string \<Rightarrow> exn + AnalysisResult list) \<Rightarrow>
   ((string \<Rightarrow> string option) \<Rightarrow> string \<Rightarrow> exn + AnalysisResult list) \<Rightarrow> manager_env" where
  "example_env go_analyze python_analyze =
     \<lparr>analyzers = initializeAnalyzers go_analyze python_analyze,
      file_system = example_files,
      ai_available = (\<lambda>path. False),
      enhanceAnalysis = (\<lambda>results path code_context. Inr results)\<rparr>"

definition example_entries :: "dir_entry list" where
  "example_entries = [RegularFile ''d/a.cpp'', RegularFile ''d/b.cpp'', RegularFile ''d/u.cpp'']"

text \<open>A schedule of two workers that runs both to the end of their loops.\<close>

definition example_schedule :: "(nat \<times> bool) list" where
  "example_schedule =
     [(0, False), (1, False), (0, False), (1, False), (1, False), (0, False),
      (0, False), (0, False), (0, False), (0, False), (0, False), (1, False), (1, False)]"

text \<open>A schedule in which no worker ever reads the cancellation flag set.\<close>

definition never_cancelled :: "(nat \<times> bool) list \<Rightarrow> bool" where
  "never_cancelled schedule \<longleftrightarrow> list_all (\<lambda>(w, flag). \<not> flag) schedule"

text \<open>
  A bound on the steps that the workers of the parallel scan can still take: a rank
  for the position of each worker in its loop, and four steps for each index that is
  not yet claimed.
\<close>

fun rank :: "worker \<Rightarrow> nat" where
  "rank AtLoopHead = 3"
| "rank Claiming = 2"
| "rank (Analysing i) = 4"
| "rank Finished = 0"

definition remaining_work :: "string list \<Rightarrow> pstate \<Rightarrow> nat" where
  "remaining_work files st =
     sum_list (map rank (workers st)) + 4 * (length files - current_index st)"

text \<open>
  What holds of the shared state of the parallel scan as long as no worker reads the
  flag set and no file's analysis raises: \<open>has_errors\<close> is unset, an entry of the
  map is the non-empty result of the analysis of a collected file, every claimed index
  is either held by a worker or accounted for in the map, a held index is a claimed
  index of the list, and a worker leaves its loop only once every index is claimed.
\<close>

definition scan_invariant :: "manager_env \<Rightarrow> string list \<Rightarrow> pstate \<Rightarrow> bool" where
  "scan_invariant env files st \<longleftrightarrow>
     \<not> has_errors st \<and>
     (\<forall>p fs. all_results st p = Some fs \<longrightarrow>
        p \<in> set files \<and> analyzeFile env False p = Inr fs \<and> fs \<noteq> []) \<and>
     (\<forall>i. i < length files \<and> i < current_index st \<longrightarrow>
        Analysing i \<in> set (workers st) \<or>
        (\<forall>fs. analyzeFile env False (files ! i) = Inr fs \<longrightarrow> fs \<noteq> [] \<longrightarrow>
           all_results st (files ! i) = Some fs)) \<and>
     (\<forall>i. Analysing i \<in> set (workers st) \<longrightarrow> i < length files \<and> i < current_index st) \<and>
     (Finished \<in> set (workers st) \<longrightarrow> length files \<le> current_index st)"

text \<open>
  The findings of a loop over the lines: in non-decreasing line order, each with a line
  number of at least 1 and under one of the given rules. The findings of checks on the
  whole file: each under one of the given rules, with the line that the rule carries.
\<close>

definition line_pass :: "string list \<Rightarrow> AnalysisResult list \<Rightarrow> bool" where
  "line_pass rules findings \<longleftrightarrow>
     sorted (map (\<lambda>r. sint (line_number r)) findings) \<and>
     list_all (\<lambda>r. 0 < sint (line_number r) \<and> rule_id r \<in> set rules) findings"

definition file_pass :: "(string \<times> 32 word) list \<Rightarrow> AnalysisResult list \<Rightarrow> bool" where
  "file_pass rules findings \<longleftrightarrow>
     list_all (\<lambda>r. (rule_id r, line_number r) \<in> set rules) findings"

section \<open>Properties of the AI engine\<close>

subsection \<open>Runtime reconfiguration\<close>

text \<open>
  C8. \<open>updateConfiguration\<close> with an invalid configuration (an empty executable or
  service path, a timeout that is not positive, a negative retry count) returns false
  and leaves the engine, and so the active configuration, as it was; a valid
  configuration replaces the active one as a whole.
\<close>

theorem updateConfiguration_all_or_nothing:
  "(python_executable cfg = [] \<or> ai_service_path cfg = [] \<or>
      sint (timeout_seconds cfg) \<le> 0 \<or> sint (max_retries cfg) < 0
      \<longrightarrow> updateConfiguration cfg s = (False, s)) \<and>
   (python_executable cfg \<noteq> [] \<and> ai_service_path cfg \<noteq> [] \<and>
      0 < sint (timeout_seconds cfg) \<and> 0 \<le> sint (max_retries cfg)
      \<longrightarrow> updateConfiguration cfg s = (True, s\<lparr>config := cfg\<rparr>))"
  by (auto simp: updateConfiguration_def validate_def word_sless_alt word_sle_eq)

theorem updateConfiguration_all_or_nothing_witness:
  "updateConfiguration (default_config\<lparr>timeout_seconds := 0\<rparr>) (new_engine default_config)
     = (False, new_engine default_config) \<and>
   getConfiguration (snd (updateConfiguration (default_config\<lparr>timeout_seconds := 0\<rparr>)
     (new_engine default_config))) = default_config \<and>
   updateConfiguration (default_config\<lparr>max_retries := 5\<rparr>) (new_engine default_config)
     = (True, (new_engine default_config)\<lparr>config := default_config\<lparr>max_retries := 5\<rparr>\<rparr>)"
  using updateConfiguration_all_or_nothing
          [of "default_config\<lparr>timeout_seconds := 0\<rparr>" "new_engine default_config"]
        updateConfiguration_all_or_nothing
          [of "default_config\<lparr>max_retries := 5\<rparr>" "new_engine default_config"]
  by (simp add: default_config_def new_engine_def getConfiguration_def)

subsection \<open>Eviction\<close>

text \<open>\<open>std::min_element\<close> returns an entry of the cache that no entry is older than.\<close>

lemma fold_min_in:
  "fold (\<lambda>b a. if timestamp (snd b) < timestamp (snd a) then b else a) xs x
     \<in> set ((x :: string \<times> CacheEntry) # xs)"
  by (induction xs arbitrary: x) auto

lemma fold_min_le:
  "y \<in> set ((x :: string \<times> CacheEntry) # xs) \<Longrightarrow>
   timestamp (snd (fold (\<lambda>b a. if timestamp (snd b) < timestamp (snd a) then b else a) xs x))
     \<le> timestamp (snd y)"
proof (induction xs arbitrary: x y)
  case Nil
  then show ?case by simp
next
  case (Cons z zs)
  let ?f = "\<lambda>b a. if timestamp (snd b) < timestamp (snd a) then b else (a :: string \<times> CacheEntry)"
  show ?case
  proof (cases "timestamp (snd z) < timestamp (snd x)")
    case True
    have a: "timestamp (snd (fold ?f zs z)) \<le> timestamp (snd z)"
      using Cons.IH [of z z] by simp
    have b: "y \<in> set zs \<Longrightarrow> timestamp (snd (fold ?f zs z)) \<le> timestamp (snd y)"
      using Cons.IH [of y z] by simp
    from True a b Cons.prems show ?thesis by auto
  next
    case False
    have a: "timestamp (snd (fold ?f zs x)) \<le> timestamp (snd x)"
      using Cons.IH [of x x] by simp
    have b: "y \<in> set zs \<Longrightarrow> timestamp (snd (fold ?f zs x)) \<le> timestamp (snd y)"
      using Cons.IH [of y x] by simp
    from False a b Cons.prems show ?thesis by auto
  qed
qed

lemma min_element_Some:
  "c \<noteq> [] \<Longrightarrow> \<exists>x. min_element c = Some x \<and> x \<in> set c \<and>
     (\<forall>y \<in> set c. timestamp (snd x) \<le> timestamp (snd y))"
proof (cases c)
  case Nil
  assume "c \<noteq> []" with Nil show ?thesis by simp
next
  case (Cons x xs)
  then show ?thesis
    using fold_min_in [of xs x] fold_min_le [of _ x xs] by auto
qed

lemma fold_min_map:
  assumes "\<And>x. timestamp (snd (h x)) = timestamp (snd x)"
  shows "fold (\<lambda>b a. if timestamp (snd b) < timestamp (snd a) then b else a) (map h xs) (h x)
       = h (fold (\<lambda>b a. if timestamp (snd b) < timestamp (snd a) then b else a) xs x)"
  by (induction xs arbitrary: x) (simp_all add: assms)

lemma min_element_map:
  assumes "\<And>x. timestamp (snd (h x)) = timestamp (snd x)"
  shows "min_element (map h c) = map_option h (min_element c)"
  by (cases c) (simp_all add: fold_min_map [OF assms])

lemma update_fresh: "k \<notin> fst ` set al \<Longrightarrow> AList.update k v al = al @ [(k, v)]"
  by (induction al) auto


lemma keys_delete: "fst ` set (AList.delete k al) = fst ` set al - {k}"
  by (induction al) auto

lemma store_all_append: "store_all (xs @ ys) s = store_all ys (store_all xs s)"
  by (induction xs arbitrary: s) auto

lemma store_all_below:
  "distinct (map fst ins) \<Longrightarrow> fst ` set ins \<inter> fst ` set (analysis_cache s) = {} \<Longrightarrow>
   length (analysis_cache s) + length ins \<le> unat (cache_max_size (config s)) \<Longrightarrow>
   store_all ins s =
     s\<lparr>analysis_cache := analysis_cache s @
         map (\<lambda>(k, r, t). (k, \<lparr>key = k, result = r, timestamp = t, access_count = 1\<rparr>)) ins\<rparr>"
proof (induction ins arbitrary: s)
  case Nil
  then show ?case by simp
next
  case (Cons x rest)
  obtain k r t where x: "x = (k, r, t)" by (cases x)
  let ?e = "\<lparr>key = k, result = r, timestamp = t, access_count = 1\<rparr>"
  let ?s1 = "s\<lparr>analysis_cache := analysis_cache s @ [(k, ?e)]\<rparr>"
  have fresh: "k \<notin> fst ` set (analysis_cache s)"
    using Cons.prems(2) x by auto
  have room: "\<not> unat (cache_max_size (config s)) \<le> length (analysis_cache s)"
    using Cons.prems(3) by simp
  have step: "storeInCache t k r s = ?s1"
    using room by (simp add: storeInCache_def update_fresh [OF fresh])
  have d: "distinct (map fst rest)"
    using Cons.prems(1) by simp
  have disj: "fst ` set rest \<inter> fst ` set (analysis_cache ?s1) = {}"
    using Cons.prems(1,2) x by auto
  have len: "length (analysis_cache ?s1) + length rest \<le> unat (cache_max_size (config ?s1))"
    using Cons.prems(3) by simp
  show ?case
    using Cons.IH [OF d disj len] by (simp add: x step)
qed

text \<open>
  C3, as amended. Take an empty cache of capacity \<open>cache_max_size\<close>, at least 1, and
  store \<open>cache_max_size + 1\<close> results under distinct keys. Exactly one entry is
  evicted; it is one of the first \<open>cache_max_size\<close> entries stored, and none of them
  has an older timestamp; the cache then holds all keys but the evicted one. Which
  entry \<open>evictCacheEntries\<close> evicts does not depend on the access counts.
\<close>

theorem store_overflow_evicts_oldest:
  assumes empty: "analysis_cache s = []" "evictions s = []"
    and cap: "0 < unat (cache_max_size (config s))"
    and len: "length ins = unat (cache_max_size (config s)) + 1"
    and dist: "distinct (map fst ins)"
  shows "(\<exists>k r t. evictions (store_all ins s) = [k] \<and> (k, r, t) \<in> set (butlast ins) \<and>
            (\<forall>(k', r', t') \<in> set (butlast ins). t \<le> t') \<and>
            fst ` set (analysis_cache (store_all ins s)) = fst ` set ins - {k}) \<and>
         (\<forall>s' g. evictions (evictCacheEntries
                     (s'\<lparr>analysis_cache :=
                          map (\<lambda>(k, e). (k, e\<lparr>access_count := g k e\<rparr>)) (analysis_cache s')\<rparr>))
                 = evictions (evictCacheEntries s'))"
proof
  let ?mk = "\<lambda>(k, r, t). (k, \<lparr>key = k, result = r, timestamp = t, access_count = (1 :: 64 word)\<rparr>)"
  from len have ne: "ins \<noteq> []" by auto
  define front where "front = butlast ins"
  obtain kn rn tn where lst: "last ins = (kn, rn, tn)" by (cases "last ins")
  have ins: "ins = front @ [(kn, rn, tn)]"
    using ne lst by (simp add: front_def flip: lst)
  have lf: "length front = unat (cache_max_size (config s))"
    using len by (simp add: front_def)
  have df: "distinct (map fst front)" and kn: "kn \<notin> fst ` set front"
    using dist ins by auto
  let ?s1 = "s\<lparr>analysis_cache := map ?mk front\<rparr>"
  have s1: "store_all front s = ?s1"
    using store_all_below [of front s] df lf empty by simp
  have cne: "map ?mk front \<noteq> []"
    using lf cap by auto
  from min_element_Some [OF cne] obtain lru where
    lru: "min_element (map ?mk front) = Some lru" "lru \<in> set (map ?mk front)"
      "\<forall>y \<in> set (map ?mk front). timestamp (snd lru) \<le> timestamp (snd y)"
    by blast
  from lru(2) obtain k r t where krt: "(k, r, t) \<in> set front" "lru = ?mk (k, r, t)"
    by auto
  have least: "\<forall>(k', r', t') \<in> set front. t \<le> t'"
  proof (clarify)
    fix k' r' t' assume "(k', r', t') \<in> set front"
    then have "?mk (k', r', t') \<in> set (map ?mk front)" by force
    with lru(3) krt(2) show "t \<le> t'" by fastforce
  qed
  have keys_mk: "map fst (map ?mk front) = map fst front"
    by (induction front) auto
  have ev: "evictCacheEntries ?s1 =
      ?s1\<lparr>evictions := [k], analysis_cache := AList.delete k (map ?mk front)\<rparr>"
    using cne lru(1) krt(2) empty by (simp add: evictCacheEntries_def)
  let ?en = "\<lparr>key = kn, result = rn, timestamp = tn, access_count = (1 :: 64 word)\<rparr>"
  have fin: "store_all ins s =
      ?s1\<lparr>evictions := [k],
           analysis_cache := AList.update kn ?en (AList.delete k (map ?mk front))\<rparr>"
    using lf by (simp add: ins store_all_append s1 storeInCache_def ev)
  have kne: "k \<noteq> kn"
    using krt(1) kn by force
  have keys: "fst ` set (analysis_cache (store_all ins s)) = fst ` set ins - {k}"
  proof -
    have "fst ` set (AList.update kn ?en (AList.delete k (map ?mk front)))
        = {kn} \<union> (fst ` set (map ?mk front) - {k})"
      by (simp only: dom_update keys_delete)
    also have "fst ` set (map ?mk front) = fst ` set front"
      using keys_mk by (metis set_map)
    also have "{kn} \<union> (fst ` set front - {k}) = fst ` set ins - {k}"
      using kne by (auto simp: ins)
    finally show ?thesis by (simp add: fin)
  qed
  have "(k, r, t) \<in> set (butlast ins)" "\<forall>(k', r', t') \<in> set (butlast ins). t \<le> t'"
    using krt(1) least by (simp_all add: front_def)
  with fin keys
  show "\<exists>k r t. evictions (store_all ins s) = [k] \<and> (k, r, t) \<in> set (butlast ins) \<and>
            (\<forall>(k', r', t') \<in> set (butlast ins). t \<le> t') \<and>
            fst ` set (analysis_cache (store_all ins s)) = fst ` set ins - {k}"
    by (intro exI [of _ k] exI [of _ r] exI [of _ t]) simp
next
  show "\<forall>s' g. evictions (evictCacheEntries
                     (s'\<lparr>analysis_cache :=
                          map (\<lambda>(k, e). (k, e\<lparr>access_count := g k e\<rparr>)) (analysis_cache s')\<rparr>))
                 = evictions (evictCacheEntries s')"
  proof (intro allI)
    fix s' :: AIEngine and g :: "string \<Rightarrow> CacheEntry \<Rightarrow> 64 word"
    let ?h = "\<lambda>(k, e). (k, e\<lparr>access_count := g k e\<rparr>)"
    have h: "\<And>x. timestamp (snd (?h x)) = timestamp (snd x)"
      by (simp add: case_prod_beta)
    have fst_h: "\<And>x. fst (?h x) = fst x"
      by (simp add: case_prod_beta)
    show "evictions (evictCacheEntries (s'\<lparr>analysis_cache := map ?h (analysis_cache s')\<rparr>))
        = evictions (evictCacheEntries s')"
      by (cases "min_element (analysis_cache s')")
         (simp_all add: evictCacheEntries_def min_element_map [of ?h, OF h] fst_h)
  qed
qed

theorem store_overflow_evicts_oldest_witness:
  "(\<exists>k r t.
      evictions (store_all
          [(''k1'', default_result\<lparr>success := True\<rparr>, 10 :: int),
           (''k2'', default_result\<lparr>success := True\<rparr>, 5),
           (''k3'', default_result\<lparr>success := True\<rparr>, 20)]
          (new_engine (default_config\<lparr>cache_max_size := 2\<rparr>))) = [k] \<and>
      (k, r, t) \<in> set (butlast
          [(''k1'', default_result\<lparr>success := True\<rparr>, 10 :: int),
           (''k2'', default_result\<lparr>success := True\<rparr>, 5),
           (''k3'', default_result\<lparr>success := True\<rparr>, 20)]) \<and>
      (\<forall>(k', r', t') \<in> set (butlast
          [(''k1'', default_result\<lparr>success := True\<rparr>, 10 :: int),
           (''k2'', default_result\<lparr>success := True\<rparr>, 5),
           (''k3'', default_result\<lparr>success := True\<rparr>, 20)]). t \<le> t') \<and>
      fst ` set (analysis_cache (store_all
          [(''k1'', default_result\<lparr>success := True\<rparr>, 10 :: int),
           (''k2'', default_result\<lparr>success := True\<rparr>, 5),
           (''k3'', default_result\<lparr>success := True\<rparr>, 20)]
          (new_engine (default_config\<lparr>cache_max_size := 2\<rparr>))))
        = fst ` set
          [(''k1'', default_result\<lparr>success := True\<rparr>, 10 :: int),
           (''k2'', default_result\<lparr>success := True\<rparr>, 5),
           (''k3'', default_result\<lparr>success := True\<rparr>, 20 :: int)] - {k}) \<and>
   evictions (store_all
       [(''k1'', default_result\<lparr>success := True\<rparr>, 10 :: int),
        (''k2'', default_result\<lparr>success := True\<rparr>, 5),
        (''k3'', default_result\<lparr>success := True\<rparr>, 20)]
       (new_engine (default_config\<lparr>cache_max_size := 2\<rparr>))) = [''k2'']"
proof (rule conjI)
  show "evictions (store_all
       [(''k1'', default_result\<lparr>success := True\<rparr>, 10 :: int),
        (''k2'', default_result\<lparr>success := True\<rparr>, 5),
        (''k3'', default_result\<lparr>success := True\<rparr>, 20)]
       (new_engine (default_config\<lparr>cache_max_size := 2\<rparr>))) = [''k2'']"
    by (simp add: storeInCache_def evictCacheEntries_def new_engine_def default_config_def)
qed (rule store_overflow_evicts_oldest [THEN conjunct1],
     simp_all add: new_engine_def default_config_def)

text \<open>
  With capacity 0 the first result stored evicts nothing, since
  \<open>evictCacheEntries\<close> returns at once on an empty cache, and the cache then holds
  one entry.
\<close>

theorem store_at_capacity_zero_counterexample:
  "length [(''k1'', default_result\<lparr>success := True\<rparr>, 10 :: int)]
     = unat (cache_max_size (config (new_engine (default_config\<lparr>cache_max_size := 0\<rparr>)))) + 1 \<and>
   evictions (store_all [(''k1'', default_result\<lparr>success := True\<rparr>, 10 :: int)]
      (new_engine (default_config\<lparr>cache_max_size := 0\<rparr>))) = [] \<and>
   length (analysis_cache (store_all [(''k1'', default_result\<lparr>success := True\<rparr>, 10 :: int)]
      (new_engine (default_config\<lparr>cache_max_size := 0\<rparr>)))) = 1"
  by (simp add: storeInCache_def evictCacheEntries_def new_engine_def default_config_def)

subsection \<open>The cache holds successful results only\<close>

lemma set_delete_subset: "set (AList.delete k al) \<subseteq> set al"
  by (induction al) auto

lemma set_update_subset: "set (AList.update k v al) \<subseteq> insert (k, v) (set al)"
  by (induction al) auto

lemma getFromCache_entries:
  assumes "getFromCache now k s = (x, s1)"
    and "(k', e') \<in> set (analysis_cache s1)"
  shows "\<exists>e. (k', e) \<in> set (analysis_cache s) \<and> success (result e') = success (result e)"
proof (cases "map_of (analysis_cache s) k")
  case None
  with assms show ?thesis by (auto simp: getFromCache_def)
next
  case (Some e)
  then have mem: "(k, e) \<in> set (analysis_cache s)" by (rule map_of_SomeD)
  show ?thesis
  proof (cases "isExpired now e")
    case True
    with Some assms have "(k', e') \<in> set (AList.delete k (analysis_cache s))"
      by (auto simp: getFromCache_def)
    with set_delete_subset show ?thesis by fastforce
  next
    case False
    let ?e = "e\<lparr>access_count := access_count e + 1, result := (result e)\<lparr>from_cache := True\<rparr>\<rparr>"
    from False Some assms have "(k', e') \<in> set (AList.update k ?e (analysis_cache s))"
      by (auto simp: getFromCache_def Let_def)
    with set_update_subset have "(k', e') = (k, ?e) \<or> (k', e') \<in> set (analysis_cache s)"
      by fastforce
    with mem show ?thesis by auto
  qed
qed

lemma getFromCache_config:
  "getFromCache now k s = (x, s1) \<Longrightarrow> config s1 = config s"
  by (auto simp: getFromCache_def Let_def split: option.splits if_splits)

lemma evictCacheEntries_entries:
  "set (analysis_cache (evictCacheEntries s)) \<subseteq> set (analysis_cache s)"
  by (auto simp: evictCacheEntries_def split: option.splits
           dest: set_mp [OF set_delete_subset])

lemma evictCacheEntries_config: "config (evictCacheEntries s) = config s"
  by (simp add: evictCacheEntries_def split: option.splits)

lemma storeInCache_entries:
  assumes "(k', e') \<in> set (analysis_cache (storeInCache now k r s))"
  shows "result e' = r \<or> (k', e') \<in> set (analysis_cache s)"
proof -
  let ?s1 = "if unat (cache_max_size (config s)) \<le> length (analysis_cache s)
             then evictCacheEntries s else s"
  let ?en = "\<lparr>key = k, result = r, timestamp = now, access_count = 1\<rparr>"
  from assms have "(k', e') \<in> set (AList.update k ?en (analysis_cache ?s1))"
    by (simp add: storeInCache_def Let_def)
  with set_update_subset have "(k', e') = (k, ?en) \<or> (k', e') \<in> set (analysis_cache ?s1)"
    by fastforce
  moreover have "set (analysis_cache ?s1) \<subseteq> set (analysis_cache s)"
    using evictCacheEntries_entries by simp
  ultimately show ?thesis by auto
qed

lemma storeInCache_config: "config (storeInCache now k r s) = config s"
  by (simp add: storeInCache_def Let_def evictCacheEntries_config)

lemma storeInCache_lookup:
  "map_of (analysis_cache (storeInCache now k r s)) k
     = Some \<lparr>key = k, result = r, timestamp = now, access_count = 1\<rparr>"
  by (simp add: storeInCache_def Let_def update_conv')

lemma cache_all_successful_iff:
  "cache_all_successful s \<longleftrightarrow> (\<forall>(k, e) \<in> set (analysis_cache s). success (result e))"
  by (simp add: cache_all_successful_def list_all_iff)

text \<open>The three ways through \<open>analyzeCode\<close>.\<close>

lemma analyzeCode_invalid:
  "code = [] \<or> language = [] \<Longrightarrow> analyzeCode h env code language path s = Some (r, s') \<Longrightarrow>
   \<not> success r \<and> \<not> from_cache r \<and> analysis_cache s' = analysis_cache s \<and> config s' = config s"
  by (auto simp: analyzeCode_def default_result_def split: if_splits)

lemma analyzeCode_hit:
  assumes "code \<noteq> []" "language \<noteq> []" "enable_caching (config s)"
    and "getFromCache (lookup_now env)
           (generateCacheKey h (config s) (sanitizeInput code) (sanitizeInput language)
              (sanitizeInput path)) s = (Some c, s1)"
  shows "analyzeCode h env code language path s =
           Some (c, s1\<lparr>metrics := (updateMetrics (hit_duration env) True (metrics s1))
                          \<lparr>cache_hits :=
                             cache_hits (updateMetrics (hit_duration env) True (metrics s1)) + 1\<rparr>\<rparr>)"
  using assms by (simp add: analyzeCode_def Let_def)

lemma analyzeCode_miss:
  assumes "code \<noteq> []" "language \<noteq> []"
    and "(if enable_caching (config s)
          then getFromCache (lookup_now env)
                 (generateCacheKey h (config s) (sanitizeInput code) (sanitizeInput language)
                    (sanitizeInput path)) s
          else (None, s)) = (None, s1)"
    and "analyzeCode h env code language path s = Some (r, s')"
  shows "\<exists>r0 slept s3.
           executeWithRetry (service env) (max_retries (config s1)) = Some (r0, slept) \<and>
           r = r0\<lparr>processing_time := total_duration env\<rparr> \<and>
           analysis_cache s3 = analysis_cache s1 \<and> config s3 = config s1 \<and>
           (if success r \<and> enable_caching (config s1)
            then analysis_cache s' = analysis_cache (storeInCache (store_now env)
                   (generateCacheKey h (config s) (sanitizeInput code) (sanitizeInput language)
                      (sanitizeInput path)) r s3) \<and>
                 config s' = config s1
            else analysis_cache s' = analysis_cache s1 \<and> config s' = config s1)"
proof -
  let ?k = "generateCacheKey h (config s) (sanitizeInput code) (sanitizeInput language)
              (sanitizeInput path)"
  let ?s2 = "if enable_caching (config s1)
             then s1\<lparr>metrics := (metrics s1)\<lparr>cache_misses := cache_misses (metrics s1) + 1\<rparr>\<rparr>
             else s1"
  have c2: "config ?s2 = config s1" and a2: "analysis_cache ?s2 = analysis_cache s1"
    by simp_all
  from assms obtain r0 slept where
    ex: "executeWithRetry (service env) (max_retries (config s1)) = Some (r0, slept)"
    by (auto simp: analyzeCode_def Let_def split: option.splits if_splits)
  let ?r = "r0\<lparr>processing_time := total_duration env\<rparr>"
  let ?s3 = "?s2\<lparr>sleeps := sleeps ?s2 @ slept\<rparr>"
  have c3: "config ?s3 = config s1" and a3: "analysis_cache ?s3 = analysis_cache s1"
    by simp_all
  have r: "r = ?r"
    using assms ex by (auto simp: analyzeCode_def Let_def split: if_splits)
  show ?thesis
  proof (cases "success ?r \<and> enable_caching (config s1)")
    case True
    with assms ex have "analysis_cache s' = analysis_cache (storeInCache (store_now env) ?k ?r ?s3)
        \<and> config s' = config s1"
      by (auto simp: analyzeCode_def Let_def storeInCache_config split: if_splits)
    with True ex r c3 a3 show ?thesis
      by (intro exI [of _ r0] exI [of _ slept] exI [of _ ?s3]) simp
  next
    case False
    with assms ex have "analysis_cache s' = analysis_cache s1 \<and> config s' = config s1"
      by (auto simp: analyzeCode_def Let_def split: if_splits)
    with False ex r c3 a3 show ?thesis
      by (intro exI [of _ r0] exI [of _ slept] exI [of _ ?s3]) auto
  qed
qed


lemma getFromCache_hit:
  "map_of (analysis_cache s) k = Some e \<Longrightarrow> \<not> isExpired now e \<Longrightarrow>
   fst (getFromCache now k s) = Some ((result e)\<lparr>from_cache := True\<rparr>)"
  by (simp add: getFromCache_def Let_def)

lemma getFromCache_Some:
  "getFromCache now k s = (Some c, s1) \<Longrightarrow>
   (\<exists>e. map_of (analysis_cache s1) k = Some e \<and> result e = c) \<and> config s1 = config s"
  by (auto simp: getFromCache_def Let_def update_conv' split: option.splits if_splits)

lemma analyzeCode_cache:
  assumes run: "analyzeCode h env code language path s = Some (r, s')"
    and inv: "cache_all_successful s"
  shows "cache_all_successful s'"
proof (cases "code = [] \<or> language = []")
  case True
  from analyzeCode_invalid [OF True run] inv show ?thesis
    by (simp add: cache_all_successful_def)
next
  case False
  then have ne: "code \<noteq> []" "language \<noteq> []" by simp_all
  let ?k = "generateCacheKey h (config s) (sanitizeInput code) (sanitizeInput language)
              (sanitizeInput path)"
  obtain x s1 where look:
    "(if enable_caching (config s) then getFromCache (lookup_now env) ?k s else (None, s)) = (x, s1)"
    by (cases "if enable_caching (config s) then getFromCache (lookup_now env) ?k s else (None, s)")
  have inv1: "cache_all_successful s1"
  proof (cases "enable_caching (config s)")
    case True
    with look have g: "getFromCache (lookup_now env) ?k s = (x, s1)" by simp
    show ?thesis
      unfolding cache_all_successful_iff
    proof (clarify)
      fix k' e' assume "(k', e') \<in> set (analysis_cache s1)"
      from getFromCache_entries [OF g this] inv show "success (result e')"
        by (auto simp: cache_all_successful_iff)
    qed
  next
    case False
    with look inv show ?thesis by simp
  qed
  show ?thesis
  proof (cases x)
    case (Some c)
    with look have en: "enable_caching (config s)" and
      g: "getFromCache (lookup_now env) ?k s = (Some c, s1)"
      by (auto split: if_splits)
    from analyzeCode_hit [OF ne en g] run inv1 show ?thesis
      by (auto simp: cache_all_successful_def)
  next
    case None
    from analyzeCode_miss [OF ne look [unfolded None] run] obtain r0 slept s3 where
      m: "analysis_cache s3 = analysis_cache s1"
         "if success r \<and> enable_caching (config s1)
          then analysis_cache s' = analysis_cache (storeInCache (store_now env) ?k r s3) \<and>
               config s' = config s1
          else analysis_cache s' = analysis_cache s1 \<and> config s' = config s1"
      by blast
    show ?thesis
    proof (cases "success r \<and> enable_caching (config s1)")
      case True
      with m(2) have eq: "analysis_cache s' = analysis_cache (storeInCache (store_now env) ?k r s3)"
        by simp
      show ?thesis
        unfolding cache_all_successful_iff eq
      proof (clarify)
        fix k' e'
        assume "(k', e') \<in> set (analysis_cache (storeInCache (store_now env) ?k r s3))"
        from storeInCache_entries [OF this] True inv1 m(1) show "success (result e')"
          by (auto simp: cache_all_successful_iff)
      qed
    next
      case False
      with m(2) have "analysis_cache s' = analysis_cache s1" by simp
      with inv1 show ?thesis by (simp add: cache_all_successful_def)
    qed
  qed
qed

lemma engine_step_cache:
  "engine_step h c s = Some s' \<Longrightarrow> cache_all_successful s \<Longrightarrow> cache_all_successful s'"
proof (cases c)
  case (AnalyzeCode env code language path)
  assume "engine_step h c s = Some s'" "cache_all_successful s"
  with AnalyzeCode show ?thesis by (auto dest: analyzeCode_cache)
next
  case (GetRecommendations env code language analysis_type)
  assume "engine_step h c s = Some s'" "cache_all_successful s"
  with GetRecommendations show ?thesis
    by (auto simp: getRecommendations_def split: option.splits dest: analyzeCode_cache)
next
  case (Warmup env)
  assume "engine_step h c s = Some s'" "cache_all_successful s"
  with Warmup show ?thesis
    by (auto simp: warmup_def split: option.splits dest: analyzeCode_cache)
next
  case ClearCache
  assume "engine_step h c s = Some s'" "cache_all_successful s"
  with ClearCache show ?thesis by (auto simp: clearCache_def cache_all_successful_def)
next
  case (UpdateConfiguration cfg)
  assume "engine_step h c s = Some s'" "cache_all_successful s"
  with UpdateConfiguration show ?thesis
    by (auto simp: updateConfiguration_def cache_all_successful_def)
qed

lemma engine_run_cache:
  "engine_run h calls s = Some s' \<Longrightarrow> cache_all_successful s \<Longrightarrow> cache_all_successful s'"
proof (induction calls arbitrary: s)
  case Nil
  then show ?case by simp
next
  case (Cons c rest)
  then show ?case by (auto split: option.splits dest: engine_step_cache)
qed

text \<open>
  C4. Whatever sequence of its operations (\<open>analyzeCode\<close>, \<open>getRecommendations\<close>,
  \<open>warmup\<close>, \<open>clearCache\<close>, \<open>updateConfiguration\<close>, with the cache lookups, stores
  and evictions they perform) an engine has run since it was constructed, every entry
  of its cache holds a result with \<open>success = true\<close>.
\<close>

theorem cache_never_holds_failed_result:
  "engine_run h calls (new_engine cfg) = Some s \<Longrightarrow>
   (\<forall>(k, e) \<in> set (analysis_cache s). success (result e))"
  using engine_run_cache [of h calls "new_engine cfg" s]
  by (simp add: cache_all_successful_iff) (simp add: cache_all_successful_def new_engine_def)

lemmas engine_eval =
  analyzeCode_def executeWithRetry_def executeWithRetry_loop.simps word_sle_eq
  getFromCache_def storeInCache_def evictCacheEntries_def generateCacheKey_def
  sanitizeInput_def MAX_INPUT_SIZE_def updateMetrics_def isExpired_def CACHE_TTL_def
  new_engine_def default_config_def default_result_def zero_metrics_def

theorem cache_never_holds_failed_result_witness:
  "\<exists>s. engine_run (\<lambda>x. x)
          [AnalyzeCode service_up ''strcpy(a, b);'' ''cpp'' ''a.cpp'',
           AnalyzeCode service_down ''gets(s);'' ''cpp'' ''b.cpp'',
           Warmup service_down]
          (new_engine default_config) = Some s \<and>
        map fst (analysis_cache s) = [''strcpy(a, b);|cpp|a.cpp|advanced''] \<and>
        (\<forall>(k, e) \<in> set (analysis_cache s). success (result e))"
proof -
  let ?calls = "[AnalyzeCode service_up ''strcpy(a, b);'' ''cpp'' ''a.cpp'',
                 AnalyzeCode service_down ''gets(s);'' ''cpp'' ''b.cpp'',
                 Warmup service_down]"
  obtain s where run: "engine_run (\<lambda>x. x) ?calls (new_engine default_config) = Some s"
    by (simp add: engine_eval warmup_def service_up_def service_down_def Let_def)
  then have keys: "map fst (analysis_cache s) = [''strcpy(a, b);|cpp|a.cpp|advanced'']"
    by (simp add: engine_eval warmup_def service_up_def service_down_def Let_def) auto
  from cache_never_holds_failed_result [OF run]
  have inv: "\<forall>(k, e) \<in> set (analysis_cache s). success (result e)" .
  show ?thesis by (rule exI [of _ s]) (intro conjI run keys inv)
qed

subsection \<open>A repeated request is served from the cache\<close>

text \<open>
  C1, as amended. With caching enabled, let a call of \<open>analyzeCode\<close> for a non-empty
  code and language return a successful result. Then the same call repeated while the
  entry stored under the request's key is not older than the TTL returns a result with
  \<open>from_cache = true\<close> and the analysis text and recommendations of the first result.
\<close>

theorem repeated_call_served_from_cache:
  assumes ne: "code \<noteq> []" "language \<noteq> []"
    and caching: "enable_caching (config s)"
    and first: "analyzeCode h env1 code language path s = Some (r1, s1)"
    and ok: "success r1"
    and ttl: "\<forall>e. map_of (analysis_cache s1)
                 (generateCacheKey h (config s) (sanitizeInput code) (sanitizeInput language)
                    (sanitizeInput path)) = Some e
               \<longrightarrow> lookup_now env2 - timestamp e \<le> CACHE_TTL"
  shows "\<exists>r2 s2. analyzeCode h env2 code language path s1 = Some (r2, s2) \<and>
           from_cache r2 \<and> analysis r2 = analysis r1 \<and>
           recommendations r2 = recommendations r1"
proof -
  let ?k = "generateCacheKey h (config s) (sanitizeInput code) (sanitizeInput language)
              (sanitizeInput path)"
  obtain x s0 where look: "getFromCache (lookup_now env1) ?k s = (x, s0)"
    by (cases "getFromCache (lookup_now env1) ?k s")
  have stored: "(\<exists>e. map_of (analysis_cache s1) ?k = Some e \<and> result e = r1) \<and>
                config s1 = config s"
  proof (cases x)
    case (Some c)
    from analyzeCode_hit [OF ne caching look [unfolded Some]] first
    have "r1 = c" "analysis_cache s1 = analysis_cache s0" "config s1 = config s0"
      by simp_all
    with getFromCache_Some [OF look [unfolded Some]] show ?thesis by simp
  next
    case None
    from look caching have "(if enable_caching (config s)
        then getFromCache (lookup_now env1) ?k s else (None, s)) = (None, s0)"
      by (simp add: None)
    from analyzeCode_miss [OF ne this first] obtain s3 where
      m: "config s3 = config s0"
         "if success r1 \<and> enable_caching (config s0)
          then analysis_cache s1 = analysis_cache (storeInCache (store_now env1) ?k r1 s3) \<and>
               config s1 = config s0
          else analysis_cache s1 = analysis_cache s0 \<and> config s1 = config s0"
      by blast
    have c0: "config s0 = config s"
      using look by (rule getFromCache_config)
    with m(2) ok caching
    have "analysis_cache s1 = analysis_cache (storeInCache (store_now env1) ?k r1 s3)"
      "config s1 = config s"
      by simp_all
    then show ?thesis by (simp add: storeInCache_lookup)
  qed
  then obtain e where e: "map_of (analysis_cache s1) ?k = Some e" "result e = r1"
    and cfg: "config s1 = config s"
    by blast
  from ttl e(1) have fresh: "\<not> isExpired (lookup_now env2) e"
    by (simp add: isExpired_def)
  obtain y s2 where look2: "getFromCache (lookup_now env2) ?k s1 = (y, s2)"
    by (cases "getFromCache (lookup_now env2) ?k s1")
  with getFromCache_hit [OF e(1) fresh] e(2)
  have y: "y = Some (r1\<lparr>from_cache := True\<rparr>)" by simp
  from caching cfg have caching1: "enable_caching (config s1)" by simp
  from analyzeCode_hit [OF ne caching1, of env2 h path "r1\<lparr>from_cache := True\<rparr>" s2]
    look2 y cfg
  show ?thesis by simp
qed

theorem repeated_call_served_from_cache_witness:
  "\<exists>r1 s1 r2 s2.
     analyzeCode (\<lambda>x. x) service_up ''strcpy(a, b);'' ''cpp'' ''a.cpp''
       (new_engine default_config) = Some (r1, s1) \<and> success r1 \<and> \<not> from_cache r1 \<and>
     analyzeCode (\<lambda>x. x) service_down ''strcpy(a, b);'' ''cpp'' ''a.cpp'' s1 = Some (r2, s2) \<and>
     from_cache r2 \<and> analysis r2 = analysis r1 \<and> recommendations r2 = recommendations r1"
proof -
  obtain r1 s1 where first:
    "analyzeCode (\<lambda>x. x) service_up ''strcpy(a, b);'' ''cpp'' ''a.cpp''
       (new_engine default_config) = Some (r1, s1)"
    by (simp add: engine_eval service_up_def Let_def)
  then have ok: "success r1" "\<not> from_cache r1"
    and st: "analysis_cache s1 =
      [(''strcpy(a, b);|cpp|a.cpp|advanced'',
        \<lparr>key = ''strcpy(a, b);|cpp|a.cpp|advanced'', result = r1, timestamp = 2000,
          access_count = 1\<rparr>)]"
    by (auto simp add: engine_eval service_up_def Let_def)
  have ttl: "\<forall>e. map_of (analysis_cache s1)
                 (generateCacheKey (\<lambda>x. x) (config (new_engine default_config))
                    (sanitizeInput ''strcpy(a, b);'') (sanitizeInput ''cpp'')
                    (sanitizeInput ''a.cpp'')) = Some e
               \<longrightarrow> lookup_now service_down - timestamp e \<le> CACHE_TTL"
    by (simp add: st engine_eval service_down_def)
  have "enable_caching (config (new_engine default_config))"
    by (simp add: new_engine_def default_config_def)
  from repeated_call_served_from_cache [OF _ _ this first ok(1) ttl] ok first
  show ?thesis by auto
qed

text \<open>
  When the service fails, the first call returns a failed result, nothing is cached,
  and the repeated call is not served from the cache.
\<close>

theorem failed_call_not_cached_counterexample:
  "enable_caching (config (new_engine default_config)) \<and>
   (case analyzeCode (\<lambda>x. x) service_down ''x'' ''cpp'' ''a.cpp'' (new_engine default_config) of
      None \<Rightarrow> False
    | Some (r1, s1) \<Rightarrow>
        (case analyzeCode (\<lambda>x. x) service_down ''x'' ''cpp'' ''a.cpp'' s1 of
           None \<Rightarrow> False
         | Some (r2, s2) \<Rightarrow> \<not> success r1 \<and> \<not> from_cache r2))"
  by (simp add: engine_eval service_down_def Let_def)

subsection \<open>Retry and backoff\<close>

lemma sint_succ32:
  fixes a :: "32 word"
  assumes "sint a < 2147483647"
  shows "sint (a + 1) = sint a + 1"
proof -
  have "- (2 ^ 31) \<le> sint a" using sint_ge [of a] by simp
  then have "signed_take_bit 31 (sint a + 1) = sint a + 1"
    using assms by (intro signed_take_bit_int_eq_self) simp_all
  then show ?thesis by (simp add: sint_word_add)
qed

lemma sint_delay:
  assumes "j \<le> 24"
  shows "sint (100 * 2 ^ j :: 32 word) = 100 * 2 ^ j"
proof -
  have "(2 :: int) ^ j \<le> 2 ^ 24" using assms by (intro power_increasing) simp_all
  then have b: "(100 :: int) * 2 ^ j < 2 ^ 31" by simp
  have "(100 * 2 ^ j :: 32 word) = word_of_int (100 * 2 ^ j)" by simp
  then have "sint (100 * 2 ^ j :: 32 word) = signed_take_bit 31 (100 * 2 ^ j :: int)"
    by (simp only: signed_of_int) simp
  also have "\<dots> = 100 * 2 ^ j"
  proof (rule signed_take_bit_int_eq_self)
    have "(0 :: int) \<le> 100 * 2 ^ j" by simp
    then show "- (2 ^ 31) \<le> (100 :: int) * 2 ^ j" by (rule order_trans [rotated]) simp
    show "(100 :: int) * 2 ^ j < 2 ^ 31" by (rule b)
  qed
  finally show ?thesis .
qed

lemma loop_succeeds:
  assumes "\<forall>i. c \<le> i \<and> i < c + n \<longrightarrow> \<not> success (operation i)"
    and "success (operation (c + n))"
    and "sint attempt + int n \<le> sint max_retries0"
  shows "executeWithRetry_loop operation max_retries0 res c attempt delay_ms slept =
           Some (operation (c + n), slept @ map (\<lambda>j. sint (delay_ms * 2 ^ j)) [0..<n])"
  using assms
proof (induction n arbitrary: c attempt delay_ms slept res)
  case 0
  then show ?case
    by (subst executeWithRetry_loop.simps) (simp add: word_sle_eq)
next
  case (Suc n)
  have lt: "sint attempt < 2147483647"
    using Suc.prems(3) sint_lt [of max_retries0] by simp
  have s1: "sint (attempt + 1) = sint attempt + 1"
    using lt by (rule sint_succ32)
  have fail: "\<not> success (operation c)"
    using Suc.prems(1) by simp
  have le0: "attempt \<le>s max_retries0" and le1: "attempt + 1 \<le>s max_retries0"
    using Suc.prems(3) by (simp_all add: word_sle_eq s1)
  have IH: "executeWithRetry_loop operation max_retries0 (operation c) (Suc c) (attempt + 1)
              (delay_ms * 2) (slept @ [sint delay_ms]) =
            Some (operation (Suc c + n),
                  (slept @ [sint delay_ms]) @ map (\<lambda>j. sint (delay_ms * 2 * 2 ^ j)) [0..<n])"
    using Suc.prems by (intro Suc.IH) (simp_all add: s1)
  have shift: "map (\<lambda>j. sint (delay_ms * 2 ^ j)) [0..<Suc n] =
      sint delay_ms # map (\<lambda>j. sint (delay_ms * 2 * 2 ^ j)) [0..<n]"
    by (simp add: upt_conv_Cons map_Suc_upt [symmetric] mult.assoc del: upt_Suc)
  show ?case
    by (subst executeWithRetry_loop.simps) (simp add: le0 le1 fail Let_def IH shift del: upt_Suc)
qed

lemma loop_exhausted:
  assumes "\<forall>i. c \<le> i \<and> i \<le> c + n \<longrightarrow> \<not> success (operation i)"
    and "sint attempt + int n = sint max_retries0"
    and "sint max_retries0 < 2147483647"
  shows "executeWithRetry_loop operation max_retries0 res c attempt delay_ms slept =
           Some (operation (c + n), slept @ map (\<lambda>j. sint (delay_ms * 2 ^ j)) [0..<n])"
  using assms
proof (induction n arbitrary: c attempt delay_ms slept res)
  case 0
  have s1: "sint (attempt + 1) = sint attempt + 1"
    using 0 by (intro sint_succ32) simp
  have le0: "attempt \<le>s max_retries0" and gt1: "\<not> attempt + 1 \<le>s max_retries0"
    using 0 by (simp_all add: word_sle_eq s1)
  have fail: "\<not> success (operation c)"
    using "0.prems"(1) by simp
  have stop: "executeWithRetry_loop operation max_retries0 (operation c) (Suc c) (attempt + 1)
      delay_ms slept = Some (operation c, slept)"
    by (subst executeWithRetry_loop.simps) (simp add: gt1)
  show ?case
    by (subst executeWithRetry_loop.simps) (simp add: le0 gt1 fail Let_def stop)
next
  case (Suc n)
  have lt: "sint attempt < 2147483647"
    using Suc.prems(2,3) by simp
  have s1: "sint (attempt + 1) = sint attempt + 1"
    using lt by (rule sint_succ32)
  have fail: "\<not> success (operation c)"
    using Suc.prems(1) by simp
  have le0: "attempt \<le>s max_retries0" and le1: "attempt + 1 \<le>s max_retries0"
    using Suc.prems(2) by (simp_all add: word_sle_eq s1)
  have IH: "executeWithRetry_loop operation max_retries0 (operation c) (Suc c) (attempt + 1)
              (delay_ms * 2) (slept @ [sint delay_ms]) =
            Some (operation (Suc c + n),
                  (slept @ [sint delay_ms]) @ map (\<lambda>j. sint (delay_ms * 2 * 2 ^ j)) [0..<n])"
    using Suc.prems by (intro Suc.IH) (simp_all add: s1)
  have shift: "map (\<lambda>j. sint (delay_ms * 2 ^ j)) [0..<Suc n] =
      sint delay_ms # map (\<lambda>j. sint (delay_ms * 2 * 2 ^ j)) [0..<n]"
    by (simp add: upt_conv_Cons map_Suc_upt [symmetric] mult.assoc del: upt_Suc)
  show ?case
    by (subst executeWithRetry_loop.simps) (simp add: le0 le1 fail Let_def IH shift del: upt_Suc)
qed


lemma executeWithRetry_last_attempt:
  assumes "0 \<le> sint max_retries0" "sint max_retries0 < 2147483647"
    and "\<forall>i < nat (sint max_retries0). \<not> success (operation i)"
  shows "executeWithRetry operation max_retries0 =
           Some (operation (nat (sint max_retries0)),
                 map (\<lambda>j. sint (100 * 2 ^ j :: 32 word)) [0..<nat (sint max_retries0)])"
proof (cases "success (operation (nat (sint max_retries0)))")
  case True
  with assms show ?thesis
    unfolding executeWithRetry_def
    using loop_succeeds [of 0 "nat (sint max_retries0)" operation 0 max_retries0 default_result 100 "[]"]
    by simp
next
  case False
  have "\<not> success (operation i)" if "i \<le> nat (sint max_retries0)" for i
    using that assms(3) False by (cases "i = nat (sint max_retries0)") simp_all
  then have "\<forall>i. 0 \<le> i \<and> i \<le> 0 + nat (sint max_retries0) \<longrightarrow> \<not> success (operation i)"
    by simp
  from loop_exhausted [OF this, of 0 max_retries0 default_result 100 "[]"] assms(1,2)
  show ?thesis
    unfolding executeWithRetry_def by simp
qed

lemma backoff_delays:
  assumes "n \<le> 25"
  shows "map (\<lambda>j. sint (100 * 2 ^ j :: 32 word)) [0..<n] = map (\<lambda>j. 100 * 2 ^ j) [0..<n]"
  using assms by (intro map_cong refl sint_delay) simp

text \<open>
  With at most 25 retries: when the first \<open>max_retries\<close> attempts fail, the result of
  attempt number \<open>max_retries\<close>, the last one, is returned, successful or not, after
  exactly \<open>max_retries\<close> delays of 100, 200, 400, ... milliseconds.
\<close>

lemma executeWithRetry_backoff:
  assumes "0 \<le> sint max_retries0" "sint max_retries0 \<le> 25"
    and "\<forall>i < nat (sint max_retries0). \<not> success (operation i)"
  shows "\<exists>slept. executeWithRetry operation max_retries0 =
                   Some (operation (nat (sint max_retries0)), slept) \<and>
           length slept = nat (sint max_retries0) \<and>
           (\<forall>j < length slept. slept ! j = 100 * 2 ^ j) \<and>
           (\<forall>j. Suc j < length slept \<longrightarrow> slept ! Suc j = 2 * slept ! j)"
proof -
  let ?n = "nat (sint max_retries0)"
  have "executeWithRetry operation max_retries0 =
      Some (operation ?n, map (\<lambda>j. 100 * 2 ^ j) [0..<?n])"
    using executeWithRetry_last_attempt [of max_retries0 operation] assms
          backoff_delays [of ?n]
    by simp
  then show ?thesis by simp
qed

text \<open>
  C2 at 26 retries. The operation fails 26 times and then succeeds. The result of the
  last attempt is returned after 26 delays, but \<open>delay_ms\<close> has overflowed: the
  delay before the last attempt is negative, not twice the one before it.
\<close>

theorem backoff_overflows_at_26_retries:
  "\<exists>slept.
     executeWithRetry
       (\<lambda>i. if i < 26 then default_result\<lparr>error_message := ''AI service did not produce output''\<rparr>
            else default_result\<lparr>success := True\<rparr>) 26
       = Some (default_result\<lparr>success := True\<rparr>, slept) \<and>
     length slept = 26 \<and> slept ! 24 = 1677721600 \<and> slept ! 25 = - 939524096"
proof -
  let ?op = "\<lambda>i :: nat. if i < 26
             then default_result\<lparr>error_message := ''AI service did not produce output''\<rparr>
             else default_result\<lparr>success := True\<rparr>"
  have "executeWithRetry ?op 26 =
      Some (?op (nat (sint (26 :: 32 word))),
            map (\<lambda>j. sint (100 * 2 ^ j :: 32 word)) [0..<nat (sint (26 :: 32 word))])"
    by (rule executeWithRetry_last_attempt) (simp_all add: default_result_def)
  moreover have "nat (sint (26 :: 32 word)) = 26" by simp
  ultimately have "executeWithRetry ?op 26 =
      Some (default_result\<lparr>success := True\<rparr>, map (\<lambda>j. sint (100 * 2 ^ j :: 32 word)) [0..<26])"
    by simp
  moreover have "map (\<lambda>j. sint (100 * 2 ^ j :: 32 word)) [0..<26] ! 24 = 1677721600"
    "map (\<lambda>j. sint (100 * 2 ^ j :: 32 word)) [0..<26] ! 25 = - 939524096"
    by (simp_all del: upt_Suc)
  ultimately show ?thesis by simp
qed

section \<open>Properties of the analyzers\<close>

lemmas manager_eval =
  analyzeDirectory_def uncancelled_def analyzeFile_def example_env_def example_files_def
  initializeAnalyzers_def CppAnalyzer_def GoAnalyzer_def JavaAnalyzer_def JavaScriptAnalyzer_def
  PythonAnalyzer_def JavaScriptAnalyzer_isSupportedFile_def CppAnalyzer_isSupportedFile_def
  ends_with_def CppAnalyzer_analyze_def CppAnalyzer_analyzeCode_def checkSecurityPatterns_def
  checkAdvancedPatterns_def checkModernCpp_def checkIncludeGuard_def checkLine_def
  security_line_def security_patterns_def error_patterns_def warning_patterns_def
  finding_def isspace_def to_lower_def

lemma fold_emit:
  "fold (\<lambda>p r. if P p then r @ [x] else r) ps results
     = results @ replicate (length (filter P ps)) x"
  by (induction ps arbitrary: results) (simp_all add: replicate_app_Cons_same)

text \<open>A check that appends findings for line \<open>n\<close> under the rules \<open>rules\<close>.\<close>

lemma checkLine_emits:
  "\<exists>new. checkLine line n file_name results = results @ new \<and>
         (\<forall>r \<in> set new. line_number r = n \<and>
            rule_id r \<in> set [''MISSING_SEMICOLON'', ''SYNTAX_ERROR'', ''CODE_SMELL''])"
  by (simp add: checkLine_def Let_def fold_emit finding_def ball_Un)

lemma security_line_emits:
  "\<exists>new. security_line line n file_name results = results @ new \<and>
         (\<forall>r \<in> set new. line_number r = n \<and> rule_id r \<in> set [''SECURITY_VULNERABILITY''])"
  by (simp add: security_line_def fold_emit finding_def ball_Un)

lemma checkAdvancedPatterns_emits:
  "\<exists>new. checkAdvancedPatterns code file_name results = results @ new \<and>
         file_pass [(''INCLUDE_GUARD_MISSING'', 0), (''USE_MODERN_MEMORY'', 0),
                    (''USE_IOSTREAMS'', 0)] new"
  by (simp add: checkAdvancedPatterns_def checkModernCpp_def checkIncludeGuard_def Let_def
                finding_def file_pass_def)

lemma checkGoSyntax_emits:
  "\<exists>new. checkGoSyntax search line n file_name results = results @ new \<and>
         (\<forall>r \<in> set new. line_number r = n \<and>
            rule_id r \<in> set [''MISSING_PACKAGE'', ''POTENTIAL_UNUSED_IMPORT'',
                              ''UNCHECKED_ERROR''])"
  by (simp add: checkGoSyntax_def Let_def finding_def)

lemma checkGoConventions_emits:
  "\<exists>new. checkGoConventions search receiver_name line n file_name results = results @ new \<and>
         (\<forall>r \<in> set new. line_number r = n \<and>
            rule_id r \<in> set [''UNEXPORTED_FUNCTION'', ''RECEIVER_NAME'', ''LINE_TOO_LONG''])"
  by (simp add: checkGoConventions_def Let_def finding_def split: option.split)

lemma checkCommonErrors_emits:
  "\<exists>new. checkCommonErrors search line n file_name results = results @ new \<and>
         (\<forall>r \<in> set new. line_number r = n \<and>
            rule_id r \<in> set [''USE_OF_PANIC'', ''NAKED_RETURN'', ''POTENTIAL_DATA_RACE''])"
  by (simp add: checkCommonErrors_def Let_def finding_def)

lemma go_file_level_emits:
  "\<exists>new. checkGoModuleStructure code file_name
            (checkFileLevelIssues search code file_name results) = results @ new \<and>
         file_pass [(''MISSING_MAIN_FUNCTION'', 0), (''INIT_FUNCTION'', 0),
                    (''BUILD_CONSTRAINTS'', 0), (''ERROR_WRAPPING'', 0)] new"
  by (simp add: checkGoModuleStructure_def checkFileLevelIssues_def Let_def finding_def
                file_pass_def)

lemma checkIndentation_emits:
  "\<exists>new. checkIndentation line n file_name results = results @ new \<and>
         (\<forall>r \<in> set new. line_number r = n \<and>
            rule_id r \<in> set [''TABS_USED'', ''INDENTATION_ERROR''])"
  by (simp add: checkIndentation_def Let_def finding_def)

lemma checkLineContent_emits:
  "\<exists>new. checkLineContent search line n file_name results = results @ new \<and>
         (\<forall>r \<in> set new. line_number r = n \<and>
            rule_id r \<in> set [''MISSING_WHITESPACE'', ''TRAILING_WHITESPACE'', ''LINE_TOO_LONG'',
                              ''CODE_STYLE_ISSUE''])"
  by (simp add: checkLineContent_def Let_def fold_emit finding_def ball_Un)

lemma checkPythonSpecifics_emits:
  "\<exists>new. checkPythonSpecifics search line n file_name results = results @ new \<and>
         (\<forall>r \<in> set new. line_number r = n \<and>
            rule_id r \<in> set [''MUTABLE_DEFAULT_ARG'', ''USE_IS_NONE'', ''PYTHON2_PRINT''])"
  by (simp add: checkPythonSpecifics_def Let_def finding_def)

lemma python_file_level_emits:
  "\<exists>new. checkPEP8Violations search code file_name
            (checkAdvancedPythonPatterns code file_name results) = results @ new \<and>
         file_pass [(''EMPTY_INIT'', 0), (''MISSING_SHEBANG'', 1), (''MULTIPLE_IMPORTS'', 0),
                    (''WILDCARD_IMPORT'', 0)] new"
  by (simp add: checkPEP8Violations_def checkAdvancedPythonPatterns_def Let_def finding_def
                file_pass_def)

text \<open>
  A loop that numbers the lines and appends, for each, findings that carry its number;
  \<open>s\<close> is what the loop remembers from one line to the next.
\<close>

lemma numbered_pass:
  fixes pass :: "'s \<Rightarrow> string list \<Rightarrow> 32 word \<Rightarrow> AnalysisResult list \<Rightarrow> AnalysisResult list"
  assumes nil: "\<And>s n results. pass s [] n results = results"
    and cons: "\<And>s line rest n results.
                 \<exists>s' new. pass s (line # rest) n results = pass s' rest (n + 1) (results @ new) \<and>
                   (\<forall>r \<in> set new. line_number r = n + 1 \<and> rule_id r \<in> set rules)"
    and bound: "sint n + int (length ls) < 2147483648"
  shows "\<exists>new. pass s ls n results = results @ new \<and>
           sorted (map (\<lambda>r. sint (line_number r)) new) \<and>
           (\<forall>r \<in> set new. sint n < sint (line_number r) \<and> rule_id r \<in> set rules)"
  using bound
proof (induction ls arbitrary: s n results)
  case Nil
  show ?case by (simp add: nil)
next
  case (Cons line rest)
  have s1: "sint (n + 1) = sint n + 1"
    using Cons.prems by (intro sint_succ32) simp
  from cons [of s line rest n results] obtain s' new1 where
    n1: "pass s (line # rest) n results = pass s' rest (n + 1) (results @ new1)"
        "\<forall>r \<in> set new1. line_number r = n + 1 \<and> rule_id r \<in> set rules"
    by blast
  from Cons.IH [of "n + 1" s' "results @ new1"] Cons.prems s1 obtain new2 where
    n2: "pass s' rest (n + 1) (results @ new1) = (results @ new1) @ new2"
        "sorted (map (\<lambda>r. sint (line_number r)) new2)"
        "\<forall>r \<in> set new2. sint (n + 1) < sint (line_number r) \<and> rule_id r \<in> set rules"
    by auto
  have sorted1: "sorted (map (\<lambda>r. sint (line_number r)) new1)"
    using n1(2) by (induction new1) auto
  have "pass s (line # rest) n results = results @ (new1 @ new2)"
    by (simp add: n1(1) n2(1))
  moreover have "sorted (map (\<lambda>r. sint (line_number r)) (new1 @ new2))"
    using sorted1 n2(2,3) n1(2) by (auto simp: sorted_append less_imp_le)
  moreover have "\<forall>r \<in> set (new1 @ new2). sint n < sint (line_number r) \<and> rule_id r \<in> set rules"
    using n1(2) n2(3) s1 by auto
  ultimately show ?case by blast
qed

lemma check_lines_pass:
  assumes "length ls < 2 ^ 31"
  shows "\<exists>new. check_lines ls 0 file_name results = results @ new \<and>
           line_pass [''MISSING_SEMICOLON'', ''SYNTAX_ERROR'', ''CODE_SMELL''] new"
proof -
  have b: "sint (0 :: 32 word) + int (length ls) < 2147483648"
    using assms by simp
  let ?pass = "\<lambda>(u :: unit) ls n results. check_lines ls n file_name results"
  have "\<exists>new. check_lines ls 0 file_name results = results @ new \<and>
           sorted (map (\<lambda>r. sint (line_number r)) new) \<and>
           (\<forall>r \<in> set new. sint (0 :: 32 word) < sint (line_number r) \<and>
              rule_id r \<in> set [''MISSING_SEMICOLON'', ''SYNTAX_ERROR'', ''CODE_SMELL''])"
  proof (rule numbered_pass [where pass = ?pass, OF _ _ b])
    fix s :: unit and line rest n and results :: "AnalysisResult list"
    from checkLine_emits [of line "n + 1" file_name results]
    show "\<exists>s' new. check_lines (line # rest) n file_name results
             = check_lines rest (n + 1) file_name (results @ new) \<and>
           (\<forall>r \<in> set new. line_number r = n + 1 \<and>
              rule_id r \<in> set [''MISSING_SEMICOLON'', ''SYNTAX_ERROR'', ''CODE_SMELL''])"
      by auto
  qed simp
  then show ?thesis by (simp add: line_pass_def list_all_iff)
qed

lemma security_lines_pass:
  assumes "length ls < 2 ^ 31"
  shows "\<exists>new. security_lines ls 0 file_name results = results @ new \<and>
           line_pass [''SECURITY_VULNERABILITY''] new"
proof -
  have b: "sint (0 :: 32 word) + int (length ls) < 2147483648"
    using assms by simp
  let ?pass = "\<lambda>(u :: unit) ls n results. security_lines ls n file_name results"
  have "\<exists>new. security_lines ls 0 file_name results = results @ new \<and>
           sorted (map (\<lambda>r. sint (line_number r)) new) \<and>
           (\<forall>r \<in> set new. sint (0 :: 32 word) < sint (line_number r) \<and>
              rule_id r \<in> set [''SECURITY_VULNERABILITY''])"
  proof (rule numbered_pass [where pass = ?pass, OF _ _ b])
    fix s :: unit and line rest n and results :: "AnalysisResult list"
    from security_line_emits [of line "n + 1" file_name results]
    show "\<exists>s' new. security_lines (line # rest) n file_name results
             = security_lines rest (n + 1) file_name (results @ new) \<and>
           (\<forall>r \<in> set new. line_number r = n + 1 \<and>
              rule_id r \<in> set [''SECURITY_VULNERABILITY''])"
      by auto
  qed simp
  then show ?thesis by (simp add: line_pass_def list_all_iff)
qed

lemma go_line_emits:
  "\<exists>new. checkCommonErrors search line n file_name
            (checkGoConventions search receiver_name line n file_name
               (checkGoSyntax search line n file_name results)) = results @ new \<and>
         (\<forall>r \<in> set new. line_number r = n \<and>
            rule_id r \<in> set [''MISSING_PACKAGE'', ''POTENTIAL_UNUSED_IMPORT'',
              ''UNCHECKED_ERROR'', ''UNEXPORTED_FUNCTION'', ''RECEIVER_NAME'', ''LINE_TOO_LONG'',
              ''USE_OF_PANIC'', ''NAKED_RETURN'', ''POTENTIAL_DATA_RACE''])"
proof -
  from checkGoSyntax_emits [of search line n file_name results] obtain new1 where
    1: "checkGoSyntax search line n file_name results = results @ new1"
       "\<forall>r \<in> set new1. line_number r = n \<and>
          rule_id r \<in> set [''MISSING_PACKAGE'', ''POTENTIAL_UNUSED_IMPORT'', ''UNCHECKED_ERROR'']"
    by blast
  from checkGoConventions_emits [of search receiver_name line n file_name "results @ new1",
         unfolded append_assoc]
  obtain new2 where
    2: "checkGoConventions search receiver_name line n file_name (results @ new1)
          = results @ new1 @ new2"
       "\<forall>r \<in> set new2. line_number r = n \<and>
          rule_id r \<in> set [''UNEXPORTED_FUNCTION'', ''RECEIVER_NAME'', ''LINE_TOO_LONG'']"
    by blast
  from checkCommonErrors_emits [of search line n file_name "results @ new1 @ new2",
         unfolded append_assoc]
  obtain new3 where
    3: "checkCommonErrors search line n file_name (results @ new1 @ new2)
          = results @ new1 @ new2 @ new3"
       "\<forall>r \<in> set new3. line_number r = n \<and>
          rule_id r \<in> set [''USE_OF_PANIC'', ''NAKED_RETURN'', ''POTENTIAL_DATA_RACE'']"
    by blast
  have "checkCommonErrors search line n file_name
            (checkGoConventions search receiver_name line n file_name
               (checkGoSyntax search line n file_name results))
        = results @ (new1 @ new2 @ new3)"
    by (simp only: 1(1) 2(1) 3(1))
  moreover have "\<forall>r \<in> set (new1 @ new2 @ new3). line_number r = n \<and>
            rule_id r \<in> set [''MISSING_PACKAGE'', ''POTENTIAL_UNUSED_IMPORT'',
              ''UNCHECKED_ERROR'', ''UNEXPORTED_FUNCTION'', ''RECEIVER_NAME'', ''LINE_TOO_LONG'',
              ''USE_OF_PANIC'', ''NAKED_RETURN'', ''POTENTIAL_DATA_RACE'']"
    using 1(2) 2(2) 3(2) by (simp add: ball_Un) blast
  ultimately show ?thesis by blast
qed

lemma go_lines_pass:
  assumes "length ls < 2 ^ 31"
  shows "\<exists>new. go_lines search receiver_name ls 0 in_block_comment file_name results
             = results @ new \<and>
           line_pass [''MISSING_PACKAGE'', ''POTENTIAL_UNUSED_IMPORT'',
              ''UNCHECKED_ERROR'', ''UNEXPORTED_FUNCTION'', ''RECEIVER_NAME'', ''LINE_TOO_LONG'',
              ''USE_OF_PANIC'', ''NAKED_RETURN'', ''POTENTIAL_DATA_RACE''] new"
proof -
  let ?rules = "[''MISSING_PACKAGE'', ''POTENTIAL_UNUSED_IMPORT'',
              ''UNCHECKED_ERROR'', ''UNEXPORTED_FUNCTION'', ''RECEIVER_NAME'', ''LINE_TOO_LONG'',
              ''USE_OF_PANIC'', ''NAKED_RETURN'', ''POTENTIAL_DATA_RACE'']"
  have b: "sint (0 :: 32 word) + int (length ls) < 2147483648"
    using assms by simp
  let ?pass = "\<lambda>c ls n results. go_lines search receiver_name ls n c file_name results"
  have "\<exists>new. go_lines search receiver_name ls 0 in_block_comment file_name results
             = results @ new \<and>
           sorted (map (\<lambda>r. sint (line_number r)) new) \<and>
           (\<forall>r \<in> set new. sint (0 :: 32 word) < sint (line_number r) \<and> rule_id r \<in> set ?rules)"
  proof (rule numbered_pass [where pass = ?pass, OF _ _ b])
    fix c line rest n and results :: "AnalysisResult list"
    from go_line_emits [of search line "n + 1" file_name receiver_name results]
    obtain new where new:
      "checkCommonErrors search line (n + 1) file_name
         (checkGoConventions search receiver_name line (n + 1) file_name
            (checkGoSyntax search line (n + 1) file_name results)) = results @ new"
      "\<forall>r \<in> set new. line_number r = n + 1 \<and> rule_id r \<in> set ?rules"
      by blast
    show "\<exists>s' new. go_lines search receiver_name (line # rest) n c file_name results
             = go_lines search receiver_name rest (n + 1) s' file_name (results @ new) \<and>
           (\<forall>r \<in> set new. line_number r = n + 1 \<and> rule_id r \<in> set ?rules)"
    proof (cases "c \<or> contains (trim line) ''/*'' \<or> trim line = [] \<or> prefix ''//'' (trim line)")
      case True
      then have "\<exists>c'. go_lines search receiver_name (line # rest) n c file_name results
           = go_lines search receiver_name rest (n + 1) c' file_name (results @ [])"
        by auto
      then show ?thesis by (metis empty_iff list.set(1))
    next
      case False
      then have "go_lines search receiver_name (line # rest) n c file_name results
           = go_lines search receiver_name rest (n + 1) False file_name (results @ new)"
        using new(1) by simp
      with new(2) show ?thesis by blast
    qed
  qed simp
  then show ?thesis by (simp add: line_pass_def list_all_iff)
qed

lemma python_line_emits:
  "\<exists>new. checkPythonSpecifics search clean_line n file_name
            (checkLineContent search clean_line n file_name
               (checkIndentation line n file_name results)) = results @ new \<and>
         (\<forall>r \<in> set new. line_number r = n \<and>
            rule_id r \<in> set [''TABS_USED'', ''INDENTATION_ERROR'', ''MISSING_WHITESPACE'',
              ''TRAILING_WHITESPACE'', ''LINE_TOO_LONG'', ''CODE_STYLE_ISSUE'',
              ''MUTABLE_DEFAULT_ARG'', ''USE_IS_NONE'', ''PYTHON2_PRINT''])"
proof -
  from checkIndentation_emits [of line n file_name results] obtain new1 where
    1: "checkIndentation line n file_name results = results @ new1"
       "\<forall>r \<in> set new1. line_number r = n \<and>
          rule_id r \<in> set [''TABS_USED'', ''INDENTATION_ERROR'']"
    by blast
  from checkLineContent_emits [of search clean_line n file_name "results @ new1",
         unfolded append_assoc]
  obtain new2 where
    2: "checkLineContent search clean_line n file_name (results @ new1)
          = results @ new1 @ new2"
       "\<forall>r \<in> set new2. line_number r = n \<and>
          rule_id r \<in> set [''MISSING_WHITESPACE'', ''TRAILING_WHITESPACE'', ''LINE_TOO_LONG'',
                            ''CODE_STYLE_ISSUE'']"
    by blast
  from checkPythonSpecifics_emits [of search clean_line n file_name "results @ new1 @ new2",
         unfolded append_assoc]
  obtain new3 where
    3: "checkPythonSpecifics search clean_line n file_name (results @ new1 @ new2)
          = results @ new1 @ new2 @ new3"
       "\<forall>r \<in> set new3. line_number r = n \<and>
          rule_id r \<in> set [''MUTABLE_DEFAULT_ARG'', ''USE_IS_NONE'', ''PYTHON2_PRINT'']"
    by blast
  have "checkPythonSpecifics search clean_line n file_name
            (checkLineContent search clean_line n file_name
               (checkIndentation line n file_name results))
        = results @ (new1 @ new2 @ new3)"
    by (simp only: 1(1) 2(1) 3(1))
  moreover have "\<forall>r \<in> set (new1 @ new2 @ new3). line_number r = n \<and>
            rule_id r \<in> set [''TABS_USED'', ''INDENTATION_ERROR'', ''MISSING_WHITESPACE'',
              ''TRAILING_WHITESPACE'', ''LINE_TOO_LONG'', ''CODE_STYLE_ISSUE'',
              ''MUTABLE_DEFAULT_ARG'', ''USE_IS_NONE'', ''PYTHON2_PRINT'']"
    using 1(2) 2(2) 3(2) by (simp add: ball_Un) blast
  ultimately show ?thesis by blast
qed

lemma python_lines_pass:
  assumes "length ls < 2 ^ 31"
  shows "\<exists>new. python_lines search ls 0 file_name results = results @ new \<and>
           line_pass [''TABS_USED'', ''INDENTATION_ERROR'', ''MISSING_WHITESPACE'',
              ''TRAILING_WHITESPACE'', ''LINE_TOO_LONG'', ''CODE_STYLE_ISSUE'',
              ''MUTABLE_DEFAULT_ARG'', ''USE_IS_NONE'', ''PYTHON2_PRINT''] new"
proof -
  let ?rules = "[''TABS_USED'', ''INDENTATION_ERROR'', ''MISSING_WHITESPACE'',
              ''TRAILING_WHITESPACE'', ''LINE_TOO_LONG'', ''CODE_STYLE_ISSUE'',
              ''MUTABLE_DEFAULT_ARG'', ''USE_IS_NONE'', ''PYTHON2_PRINT'']"
  have b: "sint (0 :: 32 word) + int (length ls) < 2147483648"
    using assms by simp
  let ?pass = "\<lambda>(u :: unit) ls n results. python_lines search ls n file_name results"
  have "\<exists>new. python_lines search ls 0 file_name results = results @ new \<and>
           sorted (map (\<lambda>r. sint (line_number r)) new) \<and>
           (\<forall>r \<in> set new. sint (0 :: 32 word) < sint (line_number r) \<and> rule_id r \<in> set ?rules)"
  proof (rule numbered_pass [where pass = ?pass, OF _ _ b])
    fix s :: unit and line rest n and results :: "AnalysisResult list"
    from python_line_emits [of search "trim line" "n + 1" file_name line results]
    obtain new where new:
      "checkPythonSpecifics search (trim line) (n + 1) file_name
         (checkLineContent search (trim line) (n + 1) file_name
            (checkIndentation line (n + 1) file_name results)) = results @ new"
      "\<forall>r \<in> set new. line_number r = n + 1 \<and> rule_id r \<in> set ?rules"
      by blast
    show "\<exists>s' new. python_lines search (line # rest) n file_name results
             = python_lines search rest (n + 1) file_name (results @ new) \<and>
           (\<forall>r \<in> set new. line_number r = n + 1 \<and> rule_id r \<in> set ?rules)"
    proof (cases "trim line = [] \<or> hd (trim line) = CHR ''#''")
      case True
      then have "python_lines search (line # rest) n file_name results
           = python_lines search rest (n + 1) file_name (results @ [])"
        by auto
      then show ?thesis by (metis empty_iff list.set(1))
    next
      case False
      then have "python_lines search (line # rest) n file_name results
           = python_lines search rest (n + 1) file_name (results @ new)"
        using new(1) by simp
      with new(2) show ?thesis by blast
    qed
  qed simp
  then show ?thesis by (simp add: line_pass_def list_all_iff)
qed

text \<open>
  C9, as amended. No analyzer sorts its findings. For a text of fewer than \<open>2 ^ 31\<close>
  lines, \<open>analyzeCode\<close> returns the findings of its passes one after the other, and
  the line order is kept within a pass over the lines, not over the whole list:
  \<^item> \<open>CppAnalyzer\<close>: the findings of the line-by-line checks, in non-decreasing
    line order; then the file-level findings, with line 0; then the findings of the
    security patterns, again in non-decreasing line order.
  \<^item> \<open>GoAnalyzer\<close>: the findings of the line-by-line checks, in non-decreasing
    line order; then the file-level findings, with line 0.
  \<^item> \<open>PythonAnalyzer\<close>: the findings of the line-by-line checks, in non-decreasing
    line order; then the file-level findings, with line 0, but \<open>MISSING_SHEBANG\<close>
    with line 1.
  \<^item> \<open>JavaAnalyzer\<close> and \<open>JavaScriptAnalyzer\<close>: one placeholder finding, with
    line 0.

  Each pass is told by its rules. For a file that can be opened, \<open>analyze\<close> of the
  C++, Go and Python analyzers returns what \<open>analyzeCode\<close> returns for its content.
\<close>

theorem analyzers_keep_line_order_within_passes:
  assumes "length (getlines code []) < 2 ^ 31"
  shows
    "(\<exists>per_line file_level security.
        CppAnalyzer_analyzeCode code file_name = per_line @ file_level @ security \<and>
        line_pass [''MISSING_SEMICOLON'', ''SYNTAX_ERROR'', ''CODE_SMELL''] per_line \<and>
        file_pass [(''INCLUDE_GUARD_MISSING'', 0), (''USE_MODERN_MEMORY'', 0),
                   (''USE_IOSTREAMS'', 0)] file_level \<and>
        line_pass [''SECURITY_VULNERABILITY''] security) \<and>
     (\<exists>per_line file_level.
        GoAnalyzer_analyzeCode go_search receiver_name code file_name = per_line @ file_level \<and>
        line_pass [''MISSING_PACKAGE'', ''POTENTIAL_UNUSED_IMPORT'', ''UNCHECKED_ERROR'',
                   ''UNEXPORTED_FUNCTION'', ''RECEIVER_NAME'', ''LINE_TOO_LONG'',
                   ''USE_OF_PANIC'', ''NAKED_RETURN'', ''POTENTIAL_DATA_RACE''] per_line \<and>
        file_pass [(''MISSING_MAIN_FUNCTION'', 0), (''INIT_FUNCTION'', 0),
                   (''BUILD_CONSTRAINTS'', 0), (''ERROR_WRAPPING'', 0)] file_level) \<and>
     (\<exists>per_line file_level.
        PythonAnalyzer_analyzeCode python_search code file_name = per_line @ file_level \<and>
        line_pass [''TABS_USED'', ''INDENTATION_ERROR'', ''MISSING_WHITESPACE'',
                   ''TRAILING_WHITESPACE'', ''LINE_TOO_LONG'', ''CODE_STYLE_ISSUE'',
                   ''MUTABLE_DEFAULT_ARG'', ''USE_IS_NONE'', ''PYTHON2_PRINT''] per_line \<and>
        file_pass [(''EMPTY_INIT'', 0), (''MISSING_SHEBANG'', 1), (''MULTIPLE_IMPORTS'', 0),
                   (''WILDCARD_IMPORT'', 0)] file_level) \<and>
     (\<exists>r. JavaAnalyzer_analyzeCode code file_name = [r] \<and>
          rule_id r = ''JAVA_PLACEHOLDER'' \<and> line_number r = 0) \<and>
     (\<exists>r. JavaScriptAnalyzer_analyzeCode code file_name = [r] \<and>
          rule_id r = ''JS_PLACEHOLDER'' \<and> line_number r = 0) \<and>
     (\<forall>file_system. file_system file_name = Some code \<longrightarrow>
        CppAnalyzer_analyze file_system file_name = CppAnalyzer_analyzeCode code file_name \<and>
        GoAnalyzer_analyze go_search receiver_name file_system file_name
          = GoAnalyzer_analyzeCode go_search receiver_name code file_name \<and>
        PythonAnalyzer_analyze python_search file_system file_name
          = PythonAnalyzer_analyzeCode python_search code file_name)"
proof (intro conjI)
  let ?ls = "getlines code []"
  from check_lines_pass [OF assms, of file_name "[]"] obtain per_line where p:
    "check_lines ?ls 0 file_name [] = per_line"
    "line_pass [''MISSING_SEMICOLON'', ''SYNTAX_ERROR'', ''CODE_SMELL''] per_line"
    by auto
  from checkAdvancedPatterns_emits [of code file_name per_line] obtain file_level where f:
    "checkAdvancedPatterns code file_name per_line = per_line @ file_level"
    "file_pass [(''INCLUDE_GUARD_MISSING'', 0), (''USE_MODERN_MEMORY'', 0),
                (''USE_IOSTREAMS'', 0)] file_level"
    by blast
  from security_lines_pass [OF assms, of file_name "per_line @ file_level"]
  obtain security where s:
    "security_lines ?ls 0 file_name (per_line @ file_level) = (per_line @ file_level) @ security"
    "line_pass [''SECURITY_VULNERABILITY''] security"
    by blast
  have "CppAnalyzer_analyzeCode code file_name = per_line @ file_level @ security"
    by (simp add: CppAnalyzer_analyzeCode_def checkSecurityPatterns_def p(1) f(1) s(1))
  with p(2) f(2) s(2)
  show "\<exists>per_line file_level security.
        CppAnalyzer_analyzeCode code file_name = per_line @ file_level @ security \<and>
        line_pass [''MISSING_SEMICOLON'', ''SYNTAX_ERROR'', ''CODE_SMELL''] per_line \<and>
        file_pass [(''INCLUDE_GUARD_MISSING'', 0), (''USE_MODERN_MEMORY'', 0),
                   (''USE_IOSTREAMS'', 0)] file_level \<and>
        line_pass [''SECURITY_VULNERABILITY''] security"
    by blast
next
  let ?ls = "getlines code []"
  from go_lines_pass [OF assms, of go_search receiver_name False file_name "[]"]
  obtain per_line where p:
    "go_lines go_search receiver_name ?ls 0 False file_name [] = per_line"
    "line_pass [''MISSING_PACKAGE'', ''POTENTIAL_UNUSED_IMPORT'', ''UNCHECKED_ERROR'',
                ''UNEXPORTED_FUNCTION'', ''RECEIVER_NAME'', ''LINE_TOO_LONG'',
                ''USE_OF_PANIC'', ''NAKED_RETURN'', ''POTENTIAL_DATA_RACE''] per_line"
    by auto
  from go_file_level_emits [of code file_name go_search per_line] obtain file_level where f:
    "checkGoModuleStructure code file_name
       (checkFileLevelIssues go_search code file_name per_line) = per_line @ file_level"
    "file_pass [(''MISSING_MAIN_FUNCTION'', 0), (''INIT_FUNCTION'', 0),
                (''BUILD_CONSTRAINTS'', 0), (''ERROR_WRAPPING'', 0)] file_level"
    by blast
  have "GoAnalyzer_analyzeCode go_search receiver_name code file_name = per_line @ file_level"
    by (simp add: GoAnalyzer_analyzeCode_def p(1) f(1))
  with p(2) f(2)
  show "\<exists>per_line file_level.
        GoAnalyzer_analyzeCode go_search receiver_name code file_name = per_line @ file_level \<and>
        line_pass [''MISSING_PACKAGE'', ''POTENTIAL_UNUSED_IMPORT'', ''UNCHECKED_ERROR'',
                   ''UNEXPORTED_FUNCTION'', ''RECEIVER_NAME'', ''LINE_TOO_LONG'',
                   ''USE_OF_PANIC'', ''NAKED_RETURN'', ''POTENTIAL_DATA_RACE''] per_line \<and>
        file_pass [(''MISSING_MAIN_FUNCTION'', 0), (''INIT_FUNCTION'', 0),
                   (''BUILD_CONSTRAINTS'', 0), (''ERROR_WRAPPING'', 0)] file_level"
    by blast
next
  let ?ls = "getlines code []"
  from python_lines_pass [OF assms, of python_search file_name "[]"]
  obtain per_line where p:
    "python_lines python_search ?ls 0 file_name [] = per_line"
    "line_pass [''TABS_USED'', ''INDENTATION_ERROR'', ''MISSING_WHITESPACE'',
                ''TRAILING_WHITESPACE'', ''LINE_TOO_LONG'', ''CODE_STYLE_ISSUE'',
                ''MUTABLE_DEFAULT_ARG'', ''USE_IS_NONE'', ''PYTHON2_PRINT''] per_line"
    by auto
  from python_file_level_emits [of python_search code file_name per_line]
  obtain file_level where f:
    "checkPEP8Violations python_search code file_name
       (checkAdvancedPythonPatterns code file_name per_line) = per_line @ file_level"
    "file_pass [(''EMPTY_INIT'', 0), (''MISSING_SHEBANG'', 1), (''MULTIPLE_IMPORTS'', 0),
                (''WILDCARD_IMPORT'', 0)] file_level"
    by blast
  have "PythonAnalyzer_analyzeCode python_search code file_name = per_line @ file_level"
    by (simp add: PythonAnalyzer_analyzeCode_def p(1) f(1))
  with p(2) f(2)
  show "\<exists>per_line file_level.
        PythonAnalyzer_analyzeCode python_search code file_name = per_line @ file_level \<and>
        line_pass [''TABS_USED'', ''INDENTATION_ERROR'', ''MISSING_WHITESPACE'',
                   ''TRAILING_WHITESPACE'', ''LINE_TOO_LONG'', ''CODE_STYLE_ISSUE'',
                   ''MUTABLE_DEFAULT_ARG'', ''USE_IS_NONE'', ''PYTHON2_PRINT''] per_line \<and>
        file_pass [(''EMPTY_INIT'', 0), (''MISSING_SHEBANG'', 1), (''MULTIPLE_IMPORTS'', 0),
                   (''WILDCARD_IMPORT'', 0)] file_level"
    by blast
next
  show "\<exists>r. JavaAnalyzer_analyzeCode code file_name = [r] \<and>
          rule_id r = ''JAVA_PLACEHOLDER'' \<and> line_number r = 0"
    by (simp add: JavaAnalyzer_analyzeCode_def finding_def)
next
  show "\<exists>r. JavaScriptAnalyzer_analyzeCode code file_name = [r] \<and>
          rule_id r = ''JS_PLACEHOLDER'' \<and> line_number r = 0"
    by (simp add: JavaScriptAnalyzer_analyzeCode_def finding_def)
next
  show "\<forall>file_system. file_system file_name = Some code \<longrightarrow>
        CppAnalyzer_analyze file_system file_name = CppAnalyzer_analyzeCode code file_name \<and>
        GoAnalyzer_analyze go_search receiver_name file_system file_name
          = GoAnalyzer_analyzeCode go_search receiver_name code file_name \<and>
        PythonAnalyzer_analyze python_search file_system file_name
          = PythonAnalyzer_analyzeCode python_search code file_name"
    by (simp add: CppAnalyzer_analyze_def GoAnalyzer_analyze_def PythonAnalyzer_analyze_def)
qed

text \<open>
  The theorem at a two-line text in which none of the Go and Python analyzers'
  expressions matches.
\<close>

theorem analyzers_keep_line_order_within_passes_witness:
  "length (getlines (''strcpy(a, b);'' @ [CHR 0x0A] @ ''x'') []) < 2 ^ 31 \<and>
   (\<exists>per_line file_level security.
      CppAnalyzer_analyzeCode (''strcpy(a, b);'' @ [CHR 0x0A] @ ''x'') ''a.cpp''
        = per_line @ file_level @ security \<and>
      line_pass [''MISSING_SEMICOLON'', ''SYNTAX_ERROR'', ''CODE_SMELL''] per_line \<and>
      file_pass [(''INCLUDE_GUARD_MISSING'', 0), (''USE_MODERN_MEMORY'', 0),
                 (''USE_IOSTREAMS'', 0)] file_level \<and>
      line_pass [''SECURITY_VULNERABILITY''] security) \<and>
   (\<exists>per_line file_level.
      GoAnalyzer_analyzeCode (\<lambda>r s. False) (\<lambda>s. None)
        (''strcpy(a, b);'' @ [CHR 0x0A] @ ''x'') ''a.cpp'' = per_line @ file_level \<and>
      line_pass [''MISSING_PACKAGE'', ''POTENTIAL_UNUSED_IMPORT'', ''UNCHECKED_ERROR'',
                 ''UNEXPORTED_FUNCTION'', ''RECEIVER_NAME'', ''LINE_TOO_LONG'',
                 ''USE_OF_PANIC'', ''NAKED_RETURN'', ''POTENTIAL_DATA_RACE''] per_line \<and>
      file_pass [(''MISSING_MAIN_FUNCTION'', 0), (''INIT_FUNCTION'', 0),
                 (''BUILD_CONSTRAINTS'', 0), (''ERROR_WRAPPING'', 0)] file_level) \<and>
   (\<exists>per_line file_level.
      PythonAnalyzer_analyzeCode (\<lambda>r s. False)
        (''strcpy(a, b);'' @ [CHR 0x0A] @ ''x'') ''a.cpp'' = per_line @ file_level \<and>
      line_pass [''TABS_USED'', ''INDENTATION_ERROR'', ''MISSING_WHITESPACE'',
                 ''TRAILING_WHITESPACE'', ''LINE_TOO_LONG'', ''CODE_STYLE_ISSUE'',
                 ''MUTABLE_DEFAULT_ARG'', ''USE_IS_NONE'', ''PYTHON2_PRINT''] per_line \<and>
      file_pass [(''EMPTY_INIT'', 0), (''MISSING_SHEBANG'', 1), (''MULTIPLE_IMPORTS'', 0),
                 (''WILDCARD_IMPORT'', 0)] file_level) \<and>
   CppAnalyzer_analyze (\<lambda>p. Some (''strcpy(a, b);'' @ [CHR 0x0A] @ ''x'')) ''a.cpp''
     = CppAnalyzer_analyzeCode (''strcpy(a, b);'' @ [CHR 0x0A] @ ''x'') ''a.cpp''"
proof -
  let ?code = "''strcpy(a, b);'' @ [CHR 0x0A] @ ''x''"
  have b: "length (getlines ?code []) < 2 ^ 31" by simp
  note t = analyzers_keep_line_order_within_passes
             [OF b, where file_name = "''a.cpp''" and go_search = "\<lambda>r s. False"
                and receiver_name = "\<lambda>s. None" and python_search = "\<lambda>r s. False"]
  note cpp = t [THEN conjunct1]
  note go = t [THEN conjunct2, THEN conjunct1]
  note python = t [THEN conjunct2, THEN conjunct2, THEN conjunct1]
  note reads = t [THEN conjunct2, THEN conjunct2, THEN conjunct2, THEN conjunct2,
                  THEN conjunct2, THEN spec, where x = "\<lambda>p. Some ?code", THEN mp,
                  THEN conjunct1, OF refl]
  from b cpp go python reads show ?thesis
    by (intro conjI)
qed

text \<open>
  A two-line file whose second line lacks a semicolon and whose first line calls
  \<open>strcpy\<close>: the finding for line 2 comes before the finding for line 1.
\<close>

theorem CppAnalyzer_line_order_counterexample:
  "map (\<lambda>r. (rule_id r, sint (line_number r)))
     (CppAnalyzer_analyzeCode (''strcpy(a, b);'' @ [CHR 0x0A] @ ''x'') ''a.cpp'')
     = [(''MISSING_SEMICOLON'', 2), (''SECURITY_VULNERABILITY'', 1)] \<and>
   \<not> sorted (map (\<lambda>r. sint (line_number r))
     (CppAnalyzer_analyzeCode (''strcpy(a, b);'' @ [CHR 0x0A] @ ''x'') ''a.cpp''))"
  by (simp add: manager_eval)

text \<open>
  The same for the other two analyzers, at texts in which none of their expressions
  matches: a Go file whose second line is a \<open>+build\<close> comment, and a Python file
  whose second line starts with a tab.
\<close>

lemma unordered_go_and_python_findings:
  "map (\<lambda>r. (rule_id r, sint (line_number r)))
     (GoAnalyzer_analyzeCode (\<lambda>r s. False) (\<lambda>s. None) (''x'' @ [CHR 0x0A] @ ''// +build'')
        ''a.go'')
     = [(''MISSING_PACKAGE'', 1), (''BUILD_CONSTRAINTS'', 0)] \<and>
   map (\<lambda>r. (rule_id r, sint (line_number r)))
     (PythonAnalyzer_analyzeCode (\<lambda>r s. False) (''x'' @ [CHR 0x0A, CHR 0x09] @ ''y'') ''a.py'')
     = [(''TABS_USED'', 2), (''MISSING_SHEBANG'', 1)]"
  by (simp add: GoAnalyzer_analyzeCode_def checkGoModuleStructure_def checkFileLevelIssues_def
        checkCommonErrors_def checkGoConventions_def checkGoSyntax_def trim_def
        PythonAnalyzer_analyzeCode_def checkPEP8Violations_def checkAdvancedPythonPatterns_def
        checkPythonSpecifics_def checkLineContent_def checkIndentation_def
        python_error_patterns_def finding_def isspace_def Let_def)

section \<open>Properties of the analysis manager\<close>

lemma run_workers_no_workers:
  "workers st = [] \<Longrightarrow> run_workers env files schedule st = st"
  by (induction schedule arbitrary: st) (auto simp: worker_step_def)

subsection \<open>The serial scan\<close>

lemma analyzeFile_cancelled: "analyzeFile env True path = Inl AnalysisException"
  by (simp add: analyzeFile_def)

lemma executeWithRecovery_Inl:
  "executeWithRecovery x = Inl e \<Longrightarrow>
   e = FileSystemException \<or> e = AnalysisException \<or> e = AnalyzerException"
  by (cases x rule: executeWithRecovery.cases) auto

lemma analyzeFile_Inl:
  "analyzeFile env c path = Inl e \<Longrightarrow>
   e = FileSystemException \<or> e = AnalysisException \<or> e = AnalyzerException"
  by (auto simp: analyzeFile_def split: if_splits dest: executeWithRecovery_Inl)

lemma analyzeDirectory_scan:
  "scan env steps Map.empty = (e, m) \<Longrightarrow> analyzeDirectory env steps = Inr m"
  by (cases e; cases "the e") (auto simp: analyzeDirectory_def)

lemma scan_regular:
  "scan env (Step (RegularFile path) cancel_loop cancel_file # rest) m =
     (if cancel_loop then (Some AnalysisException, m)
      else case analyzeFile env cancel_file path of
             Inr file_results \<Rightarrow>
               scan env rest (if file_results \<noteq> [] then m(path \<mapsto> file_results) else m)
           | Inl e \<Rightarrow>
               if e = FileSystemException \<or> e = AnalysisException then scan env rest m
               else (Some e, m))"
  by (simp split: sum.split exn.split)

declare scan.simps(4) [simp del]

lemma scan_append:
  "scan env (xs @ ys) m =
     (case scan env xs m of (None, m') \<Rightarrow> scan env ys m' | (Some e, m') \<Rightarrow> (Some e, m'))"
proof (induction xs arbitrary: m)
  case Nil
  show ?case by simp
next
  case (Cons x xs)
  obtain e cancel_loop cancel_file where x: "x = Step e cancel_loop cancel_file"
    by (cases x)
  show ?case
    by (cases e) (simp_all add: x scan_regular Cons.IH split: sum.split)
qed

lemma scan_nonempty:
  "scan env steps m0 = (e, m) \<Longrightarrow> \<forall>p fs. m0 p = Some fs \<longrightarrow> fs \<noteq> [] \<Longrightarrow>
   \<forall>p fs. m p = Some fs \<longrightarrow> fs \<noteq> []"
proof (induction steps arbitrary: m0)
  case Nil
  then show ?case by simp
next
  case (Cons x xs)
  obtain d cancel_loop cancel_file where x: "x = Step d cancel_loop cancel_file"
    by (cases x)
  show ?case
  proof (cases d)
    case (RegularFile path)
    show ?thesis
    proof (cases "cancel_loop")
      case True
      with Cons.prems x RegularFile show ?thesis by (simp add: scan_regular)
    next
      case False
      show ?thesis
      proof (cases "analyzeFile env cancel_file path")
        case (Inl ex)
        with Cons.prems x RegularFile False have
          "scan env xs m0 = (e, m) \<or> m = m0"
          by (auto simp: scan_regular split: if_splits)
        with Cons.IH [of m0] Cons.prems(2) show ?thesis by blast
      next
        case (Inr fs)
        let ?m1 = "if fs \<noteq> [] then m0(path \<mapsto> fs) else m0"
        from Cons.prems x RegularFile False Inr have "scan env xs ?m1 = (e, m)"
          by (simp add: scan_regular)
        moreover have "\<forall>p fs'. ?m1 p = Some fs' \<longrightarrow> fs' \<noteq> []"
          using Cons.prems(2) by auto
        ultimately show ?thesis by (rule Cons.IH)
      qed
    qed
  next
    case (OtherEntry path)
    with Cons.prems x have "scan env xs m0 = (e, m) \<or> m = m0"
      by (auto split: if_splits)
    with Cons.IH [of m0] Cons.prems(2) show ?thesis by blast
  next
    case IterationError
    with Cons.prems x show ?thesis by simp
  qed
qed

lemma scan_absent:
  "scan env steps m0 = (e, m) \<Longrightarrow> analyzeFile env False path = Inr [] \<Longrightarrow> m0 path = None \<Longrightarrow>
   m path = None"
proof (induction steps arbitrary: m0)
  case Nil
  then show ?case by simp
next
  case (Cons x xs)
  obtain d cancel_loop cancel_file where x: "x = Step d cancel_loop cancel_file"
    by (cases x)
  show ?case
  proof (cases d)
    case (RegularFile q)
    show ?thesis
    proof (cases "cancel_loop")
      case True
      with Cons.prems x RegularFile show ?thesis by (simp add: scan_regular)
    next
      case False
      show ?thesis
      proof (cases "analyzeFile env cancel_file q")
        case (Inl ex)
        with Cons.prems x RegularFile False have
          "scan env xs m0 = (e, m) \<or> m = m0"
          by (auto simp: scan_regular split: if_splits)
        with Cons.IH [of m0] Cons.prems(2,3) show ?thesis by blast
      next
        case (Inr fs)
        let ?m1 = "if fs \<noteq> [] then m0(q \<mapsto> fs) else m0"
        from Cons.prems x RegularFile False Inr have "scan env xs ?m1 = (e, m)"
          by (simp add: scan_regular)
        moreover have "?m1 path = None"
        proof (cases cancel_file)
          case True
          with Inr show ?thesis by (simp add: analyzeFile_cancelled)
        next
          case False
          with Inr Cons.prems(2,3) show ?thesis by (cases "q = path") auto
        qed
        ultimately show ?thesis using Cons.prems(2) by (intro Cons.IH [of ?m1])
      qed
    qed
  next
    case (OtherEntry q)
    with Cons.prems x have "scan env xs m0 = (e, m) \<or> m = m0"
      by (auto split: if_splits)
    with Cons.IH [of m0] Cons.prems(2,3) show ?thesis by blast
  next
    case IterationError
    with Cons.prems x show ?thesis by simp
  qed
qed

lemmas manager_eval2 = manager_eval scan_regular example_entries_def








text \<open>What an uncancelled scan that nothing aborts leaves in the map.\<close>

lemma scan_complete:
  assumes "\<forall>d \<in> set entries. d \<noteq> IterationError \<and>
             (\<forall>q. d = RegularFile q \<longrightarrow> analyzeFile env False q \<noteq> Inl AnalyzerException)"
  shows "scan env (uncancelled entries) m0 =
           (None, \<lambda>p. if RegularFile p \<in> set entries
                       then (case analyzeFile env False p of
                               Inr fs \<Rightarrow> if fs = [] then m0 p else Some fs
                             | Inl e \<Rightarrow> m0 p)
                       else m0 p)"
  using assms
proof (induction entries arbitrary: m0)
  case Nil
  show ?case by (simp add: uncancelled_def)
next
  case (Cons d rest)
  have IH: "\<And>m. scan env (uncancelled rest) m =
           (None, \<lambda>p. if RegularFile p \<in> set rest
                       then (case analyzeFile env False p of
                               Inr fs \<Rightarrow> if fs = [] then m p else Some fs
                             | Inl e \<Rightarrow> m p)
                       else m p)"
    using Cons.prems by (intro Cons.IH) simp
  have unc: "\<And>x. uncancelled (x # rest) = Step x False False # uncancelled rest"
    by (simp add: uncancelled_def)
  show ?case
  proof (cases d)
    case (RegularFile path)
    show ?thesis
    proof (cases "analyzeFile env False path")
      case (Inl ex)
      from analyzeFile_Inl [OF Inl] Cons.prems RegularFile Inl
      have "ex = FileSystemException \<or> ex = AnalysisException" by auto
      with Inl show ?thesis
        by (auto simp: unc RegularFile scan_regular IH fun_eq_iff split: sum.splits)
    next
      case (Inr fs)
      then show ?thesis
        by (auto simp: unc RegularFile scan_regular IH fun_eq_iff split: sum.splits)
    qed
  next
    case (OtherEntry path)
    then show ?thesis by (simp add: unc IH)
  next
    case IterationError
    with Cons.prems show ?thesis by simp
  qed
qed

text \<open>
  C5, as amended.
  \<^item> \<open>analyzeDirectory\<close> never raises, whatever the enumeration, the analyses and
    the cancellation flag do.
  \<^item> A regular file that the loop reaches with the flag unset and whose analysis raises
    a \<open>FileSystemException\<close> or an \<open>AnalysisException\<close> is skipped: the call returns
    what it returns for the same scan without that entry.
  \<^item> When the flag is never read set, the enumeration does not fail and no file's
    analysis raises an \<open>AnalyzerException\<close> (which is what \<open>executeWithRecovery\<close>
    makes of every exception other than the two above, and which ends the scan), a
    regular file of the directory has an entry in the returned map exactly if its
    analysis returns at least one finding, and the entry is the list of these findings:
    a file whose analysis raises and a file without findings have none.
  \<^item> With the registry of \<open>initializeAnalyzers\<close> and no AI engine available, a file
    with a C++ extension that cannot be opened is not a file whose analysis raises:
    its analysis returns a single \<open>FILE_ERROR\<close> finding.
  \<^item> So, under the conditions of the last two items, such a file has an entry in the
    returned map, which is that \<open>FILE_ERROR\<close> finding.
\<close>

theorem analyzeDirectory_isolates_file_errors:
  "(\<exists>m. analyzeDirectory env steps = Inr m) \<and>
   (analyzeFile env cancel_file path = Inl FileSystemException \<or>
    analyzeFile env cancel_file path = Inl AnalysisException
      \<longrightarrow> analyzeDirectory env (before @ Step (RegularFile path) False cancel_file # after)
            = analyzeDirectory env (before @ after)) \<and>
   ((\<forall>d \<in> set entries. d \<noteq> IterationError \<and>
        (\<forall>q. d = RegularFile q \<longrightarrow> analyzeFile env False q \<noteq> Inl AnalyzerException)) \<and>
    RegularFile path \<in> set entries
      \<longrightarrow> (\<exists>m. analyzeDirectory env (uncancelled entries) = Inr m \<and>
                m path = (case analyzeFile env False path of
                            Inr fs \<Rightarrow> if fs = [] then None else Some fs
                          | Inl e \<Rightarrow> None))) \<and>
   (analyzers env = initializeAnalyzers go_analyze python_analyze \<and>
    CppAnalyzer_isSupportedFile path \<and> file_system env path = None \<and>
    \<not> ai_available env path
      \<longrightarrow> analyzeFile env False path =
            Inr [finding path ''FILE_ERROR'' (''Cannot open file: '' @ path) ''ERROR'' 0]) \<and>
   (analyzers env = initializeAnalyzers go_analyze python_analyze \<and>
    CppAnalyzer_isSupportedFile path \<and> file_system env path = None \<and>
    \<not> ai_available env path \<and>
    (\<forall>d \<in> set entries. d \<noteq> IterationError \<and>
        (\<forall>q. d = RegularFile q \<longrightarrow> analyzeFile env False q \<noteq> Inl AnalyzerException)) \<and>
    RegularFile path \<in> set entries
      \<longrightarrow> (\<exists>m. analyzeDirectory env (uncancelled entries) = Inr m \<and>
                m path =
                  Some [finding path ''FILE_ERROR'' (''Cannot open file: '' @ path) ''ERROR'' 0]))"
proof (intro conjI impI)
  obtain e m where "scan env steps Map.empty = (e, m)"
    by (cases "scan env steps Map.empty")
  then show "\<exists>m. analyzeDirectory env steps = Inr m"
    by (auto dest: analyzeDirectory_scan)
next
  assume raised: "analyzeFile env cancel_file path = Inl FileSystemException \<or>
    analyzeFile env cancel_file path = Inl AnalysisException"
  have skip: "scan env (Step (RegularFile path) False cancel_file # after) m = scan env after m"
    for m
    using raised by (auto simp: scan_regular)
  have "scan env (before @ Step (RegularFile path) False cancel_file # after) Map.empty
      = scan env (before @ after) Map.empty"
    by (simp add: scan_append skip split: prod.split option.split)
  then show "analyzeDirectory env (before @ Step (RegularFile path) False cancel_file # after)
      = analyzeDirectory env (before @ after)"
    by (simp add: analyzeDirectory_def)
next
  assume a: "(\<forall>d \<in> set entries. d \<noteq> IterationError \<and>
        (\<forall>q. d = RegularFile q \<longrightarrow> analyzeFile env False q \<noteq> Inl AnalyzerException)) \<and>
    RegularFile path \<in> set entries"
  then have "\<forall>d \<in> set entries. d \<noteq> IterationError \<and>
        (\<forall>q. d = RegularFile q \<longrightarrow> analyzeFile env False q \<noteq> Inl AnalyzerException)"
    by simp
  from scan_complete [OF this, of Map.empty] a
  show "\<exists>m. analyzeDirectory env (uncancelled entries) = Inr m \<and>
                m path = (case analyzeFile env False path of
                            Inr fs \<Rightarrow> if fs = [] then None else Some fs
                          | Inl e \<Rightarrow> None)"
    by (auto simp: analyzeDirectory_def split: sum.splits)
next
  assume "analyzers env = initializeAnalyzers go_analyze python_analyze \<and>
    CppAnalyzer_isSupportedFile path \<and> file_system env path = None \<and>
    \<not> ai_available env path"
  then show "analyzeFile env False path =
      Inr [finding path ''FILE_ERROR'' (''Cannot open file: '' @ path) ''ERROR'' 0]"
    by (simp add: analyzeFile_def initializeAnalyzers_def CppAnalyzer_def
                  CppAnalyzer_analyze_def)
next
  assume h: "analyzers env = initializeAnalyzers go_analyze python_analyze \<and>
    CppAnalyzer_isSupportedFile path \<and> file_system env path = None \<and>
    \<not> ai_available env path \<and>
    (\<forall>d \<in> set entries. d \<noteq> IterationError \<and>
        (\<forall>q. d = RegularFile q \<longrightarrow> analyzeFile env False q \<noteq> Inl AnalyzerException)) \<and>
    RegularFile path \<in> set entries"
  then have f: "analyzeFile env False path =
      Inr [finding path ''FILE_ERROR'' (''Cannot open file: '' @ path) ''ERROR'' 0]"
    by (simp add: analyzeFile_def initializeAnalyzers_def CppAnalyzer_def
                  CppAnalyzer_analyze_def)
  from h have e: "\<forall>d \<in> set entries. d \<noteq> IterationError \<and>
        (\<forall>q. d = RegularFile q \<longrightarrow> analyzeFile env False q \<noteq> Inl AnalyzerException)"
    and mem: "RegularFile path \<in> set entries"
    by simp_all
  from scan_complete [OF e, of Map.empty] mem f
  show "\<exists>m. analyzeDirectory env (uncancelled entries) = Inr m \<and>
                m path =
                  Some [finding path ''FILE_ERROR'' (''Cannot open file: '' @ path) ''ERROR'' 0]"
    by (simp add: analyzeDirectory_def)
qed

theorem analyzeDirectory_isolates_file_errors_witness:
  "\<forall>g p.
    (\<exists>m. analyzeDirectory (example_env g p) (uncancelled example_entries) = Inr m) \<and>
    analyzeFile (example_env g p) True ''d/u.cpp'' = Inl AnalysisException \<and>
    analyzeDirectory (example_env g p)
       ([Step (RegularFile ''d/a.cpp'') False False] @
        Step (RegularFile ''d/u.cpp'') False True # [Step (RegularFile ''d/b.cpp'') False False])
      = analyzeDirectory (example_env g p)
         ([Step (RegularFile ''d/a.cpp'') False False] @
          [Step (RegularFile ''d/b.cpp'') False False]) \<and>
    (\<exists>m. analyzeDirectory (example_env g p) (uncancelled example_entries) = Inr m \<and>
         m ''d/u.cpp'' =
           Some [finding ''d/u.cpp'' ''FILE_ERROR'' ''Cannot open file: d/u.cpp'' ''ERROR'' 0]) \<and>
    analyzeFile (example_env g p) False ''d/u.cpp'' =
      Inr [finding ''d/u.cpp'' ''FILE_ERROR'' ''Cannot open file: d/u.cpp'' ''ERROR'' 0]"
proof (intro allI)
  fix g p
  have a: "analyzeFile (example_env g p) False ''d/a.cpp'' = Inr []"
    by (simp add: manager_eval2)
  have b: "analyzeFile (example_env g p) False ''d/b.cpp'' \<noteq> Inl AnalyzerException"
    by (simp add: manager_eval2)
  have c: "analyzeFile (example_env g p) True ''d/u.cpp'' = Inl AnalysisException"
    by (simp add: analyzeFile_def)
  have r: "analyzers (example_env g p) = initializeAnalyzers g p"
          "file_system (example_env g p) ''d/u.cpp'' = None"
          "\<not> ai_available (example_env g p) ''d/u.cpp''"
          "CppAnalyzer_isSupportedFile ''d/u.cpp''"
    by (simp_all add: example_env_def example_files_def CppAnalyzer_isSupportedFile_def
                      ends_with_def)
  note t = analyzeDirectory_isolates_file_errors
         [where env = "example_env g p" and steps = "uncancelled example_entries"
            and cancel_file = True and path = "''d/u.cpp''"
            and before = "[Step (RegularFile ''d/a.cpp'') False False]"
            and after = "[Step (RegularFile ''d/b.cpp'') False False]"
            and entries = example_entries and go_analyze = g and python_analyze = p]
  from t r have u: "analyzeFile (example_env g p) False ''d/u.cpp'' =
      Inr [finding ''d/u.cpp'' ''FILE_ERROR'' ''Cannot open file: d/u.cpp'' ''ERROR'' 0]"
    by simp
  from t u a b c
  show "(\<exists>m. analyzeDirectory (example_env g p) (uncancelled example_entries) = Inr m) \<and>
    analyzeFile (example_env g p) True ''d/u.cpp'' = Inl AnalysisException \<and>
    analyzeDirectory (example_env g p)
       ([Step (RegularFile ''d/a.cpp'') False False] @
        Step (RegularFile ''d/u.cpp'') False True # [Step (RegularFile ''d/b.cpp'') False False])
      = analyzeDirectory (example_env g p)
         ([Step (RegularFile ''d/a.cpp'') False False] @
          [Step (RegularFile ''d/b.cpp'') False False]) \<and>
    (\<exists>m. analyzeDirectory (example_env g p) (uncancelled example_entries) = Inr m \<and>
         m ''d/u.cpp'' =
           Some [finding ''d/u.cpp'' ''FILE_ERROR'' ''Cannot open file: d/u.cpp'' ''ERROR'' 0]) \<and>
    analyzeFile (example_env g p) False ''d/u.cpp'' =
      Inr [finding ''d/u.cpp'' ''FILE_ERROR'' ''Cannot open file: d/u.cpp'' ''ERROR'' 0]"
    by (simp add: example_entries_def)
qed

text \<open>
  In the example directory the unreadable file does not raise: the C++ analyzer
  reports it as a \<open>FILE_ERROR\<close> finding, so it has an entry. Of the two valid files
  the one without findings has none.
\<close>

theorem clean_file_absent_counterexample:
  "\<forall>g p.
     example_files ''d/a.cpp'' \<noteq> None \<and> example_files ''d/b.cpp'' \<noteq> None \<and>
     example_files ''d/u.cpp'' = None \<and>
     (case analyzeDirectory (example_env g p) (uncancelled example_entries) of
        Inl e \<Rightarrow> False
      | Inr m \<Rightarrow>
          m ''d/a.cpp'' = None \<and> m ''d/b.cpp'' \<noteq> None \<and>
          m ''d/u.cpp'' =
            Some [finding ''d/u.cpp'' ''FILE_ERROR'' ''Cannot open file: d/u.cpp'' ''ERROR'' 0])"
  by (simp add: manager_eval2)

subsection \<open>The parallel scan\<close>

lemma worker_step_results:
  assumes "all_results (worker_step env files w flag st) p = Some fs"
  shows "all_results st p = Some fs \<or> (fs \<noteq> [] \<and> analyzeFile env False p = Inr fs)"
proof (cases "w < length (workers st)")
  case False
  with assms show ?thesis by (simp add: worker_step_def)
next
  case True
  show ?thesis
  proof (cases "workers st ! w")
    case AtLoopHead
    with assms True show ?thesis by (simp add: worker_step_def split: if_splits)
  next
    case Claiming
    with assms True show ?thesis by (simp add: worker_step_def Let_def split: if_splits)
  next
    case (Analysing i)
    show ?thesis
    proof (cases flag)
      case True
      with assms Analysing \<open>w < length (workers st)\<close> show ?thesis
        by (simp add: worker_step_def analyzeFile_cancelled)
    next
      case False
      show ?thesis
      proof (cases "analyzeFile env False (files ! i)")
        case (Inl ex)
        with assms Analysing False True show ?thesis
          by (cases ex) (simp_all add: worker_step_def)
      next
        case (Inr file_results)
        with assms Analysing False True show ?thesis
          by (cases "p = files ! i") (auto simp: worker_step_def split: if_splits)
      qed
    qed
  next
    case Finished
    with assms True show ?thesis by (simp add: worker_step_def)
  qed
qed

lemma run_workers_results:
  "all_results (run_workers env files schedule st) p = Some fs \<Longrightarrow>
   all_results st p = Some fs \<or> (fs \<noteq> [] \<and> analyzeFile env False p = Inr fs)"
proof (induction schedule arbitrary: st)
  case Nil
  then show ?case by simp
next
  case (Cons x rest)
  obtain w flag where x: "x = (w, flag)" by (cases x)
  from Cons.prems have
    "all_results (run_workers env files rest (worker_step env files w flag st)) p = Some fs"
    by (simp add: x)
  from Cons.IH [OF this] worker_step_results [of env files w flag st p fs]
  show ?case by blast
qed

lemma analyzeDirectoryParallel_results:
  assumes "analyzeDirectoryParallel env entries max_threads schedule = Some (Inr m)"
    and "m p = Some fs"
  shows "fs \<noteq> [] \<and> analyzeFile env False p = Inr fs"
proof (cases "collect_files (analyzers env) entries []")
  case (Inl ex)
  with assms show ?thesis
    by (cases ex) (auto simp: analyzeDirectoryParallel_def)
next
  case (Inr files)
  let ?st0 = "\<lparr>current_index = 0, has_errors = False, all_results = Map.empty,
      workers = replicate (nat (min (sint max_threads)
        (sint (word_of_nat (length files) :: 32 word)))) AtLoopHead\<rparr>"
  from assms Inr have "all_results (run_workers env files schedule ?st0) p = Some fs"
    by (auto simp: analyzeDirectoryParallel_def Let_def split: if_splits)
  from run_workers_results [OF this] show ?thesis by simp
qed

text \<open>
  C10. The maps returned by \<open>analyzeDirectory\<close> and \<open>analyzeDirectoryParallel\<close>
  never map a path to an empty list of findings, and a file whose analysis returns no
  finding has no entry.
\<close>

theorem result_maps_hold_no_empty_list:
  "(analyzeDirectory env steps = Inr m \<longrightarrow>
      (\<forall>p fs. m p = Some fs \<longrightarrow> fs \<noteq> []) \<and>
      (\<forall>p. analyzeFile env False p = Inr [] \<longrightarrow> m p = None)) \<and>
   (analyzeDirectoryParallel env entries max_threads schedule = Some (Inr m') \<longrightarrow>
      (\<forall>p fs. m' p = Some fs \<longrightarrow> fs \<noteq> []) \<and>
      (\<forall>p. analyzeFile env False p = Inr [] \<longrightarrow> m' p = None))"
proof (intro conjI impI allI)
  fix p fs
  assume "analyzeDirectory env steps = Inr m" "m p = Some fs"
  moreover obtain e m1 where s: "scan env steps Map.empty = (e, m1)"
    by (cases "scan env steps Map.empty")
  ultimately have "m1 p = Some fs"
    using analyzeDirectory_scan [OF s] by simp
  with scan_nonempty [OF s] show "fs \<noteq> []" by simp
next
  fix p
  assume "analyzeDirectory env steps = Inr m" "analyzeFile env False p = Inr []"
  moreover obtain e m1 where s: "scan env steps Map.empty = (e, m1)"
    by (cases "scan env steps Map.empty")
  ultimately show "m p = None"
    using analyzeDirectory_scan [OF s] scan_absent [OF s, of p] by simp
next
  fix p fs
  assume "analyzeDirectoryParallel env entries max_threads schedule = Some (Inr m')"
    "m' p = Some fs"
  from analyzeDirectoryParallel_results [OF this] show "fs \<noteq> []" by simp
next
  fix p
  assume r: "analyzeDirectoryParallel env entries max_threads schedule = Some (Inr m')"
    and "analyzeFile env False p = Inr []"
  with analyzeDirectoryParallel_results [OF r, of p] show "m' p = None"
    by (cases "m' p") auto
qed

theorem result_maps_hold_no_empty_list_witness:
  "\<forall>g p.
     (\<exists>m. analyzeDirectory (example_env g p) (uncancelled example_entries) = Inr m \<and>
           m ''d/a.cpp'' = None \<and> m ''d/b.cpp'' \<noteq> Some []) \<and>
     (\<exists>m'. analyzeDirectoryParallel (example_env g p) example_entries 2 example_schedule
              = Some (Inr m') \<and>
            m' ''d/a.cpp'' = None \<and> m' ''d/b.cpp'' \<noteq> Some [])"
proof (intro allI)
  fix g p
  let ?B = "finding ''d/b.cpp'' ''SECURITY_VULNERABILITY''
              ''Potential security vulnerability detected'' ''CRITICAL'' 1"
  let ?U = "finding ''d/u.cpp'' ''FILE_ERROR'' ''Cannot open file: d/u.cpp'' ''ERROR'' 0"
  have a: "analyzeFile (example_env g p) False ''d/a.cpp'' = Inr []"
    by (simp add: manager_eval2)
  have b: "analyzeFile (example_env g p) False ''d/b.cpp'' = Inr [?B]"
    by (simp add: manager_eval2)
  have u: "analyzeFile (example_env g p) False ''d/u.cpp'' = Inr [?U]"
    by (simp add: manager_eval2)
  let ?m = "[''d/b.cpp'' \<mapsto> [?B], ''d/u.cpp'' \<mapsto> [?U]]"
  have s: "analyzeDirectory (example_env g p) (uncancelled example_entries) = Inr ?m"
    by (simp add: analyzeDirectory_def uncancelled_def example_entries_def scan_regular a b u)
  have files: "collect_files (analyzers (example_env g p)) example_entries []
      = Inr [''d/a.cpp'', ''d/b.cpp'', ''d/u.cpp'']"
    by (simp add: manager_eval2)
  have run: "run_workers (example_env g p) [''d/a.cpp'', ''d/b.cpp'', ''d/u.cpp'']
       example_schedule
       \<lparr>current_index = 0, has_errors = False, all_results = Map.empty,
        workers = [AtLoopHead, AtLoopHead]\<rparr>
     = \<lparr>current_index = 5, has_errors = False,
        all_results = [''d/b.cpp'' \<mapsto> [?B], ''d/u.cpp'' \<mapsto> [?U]],
        workers = [Finished, Finished]\<rparr>"
    by (simp add: example_schedule_def worker_step_def Let_def a b u)
  have q: "analyzeDirectoryParallel (example_env g p) example_entries 2 example_schedule
          = Some (Inr [''d/b.cpp'' \<mapsto> [?B], ''d/u.cpp'' \<mapsto> [?U]])"
    by (simp add: analyzeDirectoryParallel_def files Let_def numeral_2_eq_2 run
                  all_finished_def)
  from result_maps_hold_no_empty_list
         [of "example_env g p" "uncancelled example_entries" ?m example_entries 2
             example_schedule "[''d/b.cpp'' \<mapsto> [?B], ''d/u.cpp'' \<mapsto> [?U]]"] s q a
  have "?m ''d/a.cpp'' = None \<and> ?m ''d/b.cpp'' \<noteq> Some []"
    by simp
  with s q show "(\<exists>m. analyzeDirectory (example_env g p) (uncancelled example_entries) = Inr m \<and>
           m ''d/a.cpp'' = None \<and> m ''d/b.cpp'' \<noteq> Some []) \<and>
     (\<exists>m'. analyzeDirectoryParallel (example_env g p) example_entries 2 example_schedule
              = Some (Inr m') \<and>
            m' ''d/a.cpp'' = None \<and> m' ''d/b.cpp'' \<noteq> Some [])"
    by (simp add: finding_def)
qed

subsection \<open>The parallel scan against the serial scan\<close>

text \<open>Every schedule can be continued until all workers have left their loops.\<close>

lemma sum_rank_update:
  "w < length ws \<Longrightarrow>
   sum_list (map rank (ws[w := x])) + rank (ws ! w) = sum_list (map rank ws) + rank x"
proof (induction ws arbitrary: w)
  case Nil
  then show ?case by simp
next
  case (Cons a ws)
  then show ?case by (cases w) auto
qed

lemma worker_step_decreases:
  assumes w: "w < length (workers st)" and act: "workers st ! w \<noteq> Finished"
  shows "remaining_work files (worker_step env files w flag st) < remaining_work files st"
proof (cases "workers st ! w")
  case AtLoopHead
  with w sum_rank_update [OF w, of Claiming] sum_rank_update [OF w, of Finished]
  show ?thesis
    by (auto simp: worker_step_def remaining_work_def)
next
  case Claiming
  with w sum_rank_update [OF w, of "Analysing (current_index st)"]
    sum_rank_update [OF w, of Finished]
  show ?thesis
    by (auto simp: worker_step_def remaining_work_def Let_def)
next
  case (Analysing i)
  with w sum_rank_update [OF w, of AtLoopHead] sum_rank_update [OF w, of Finished]
  show ?thesis
    by (auto simp: worker_step_def remaining_work_def split: sum.splits exn.splits)
next
  case Finished
  with act show ?thesis by simp
qed

lemma not_all_finished:
  "\<not> all_finished st \<Longrightarrow> \<exists>w < length (workers st). workers st ! w \<noteq> Finished"
  by (auto simp: all_finished_def list_all_length)

lemma complete_schedule_exists:
  "\<exists>schedule. list_all (\<lambda>(w, flag). \<not> flag) schedule \<and>
              all_finished (run_workers env files schedule st)"
proof (induction "remaining_work files st" arbitrary: st rule: less_induct)
  case less
  show ?case
  proof (cases "all_finished st")
    case True
    then have "list_all (\<lambda>(w, flag). \<not> flag) [] \<and> all_finished (run_workers env files [] st)"
      by simp
    then show ?thesis by blast
  next
    case False
    from not_all_finished [OF this] obtain w where
      w: "w < length (workers st)" "workers st ! w \<noteq> Finished"
      by blast
    let ?st = "worker_step env files w False st"
    from worker_step_decreases [OF w] have "remaining_work files ?st < remaining_work files st" .
    from less [OF this] obtain schedule where
      s: "list_all (\<lambda>(w, flag). \<not> flag) schedule"
         "all_finished (run_workers env files schedule ?st)"
      by blast
    then have "list_all (\<lambda>(w, flag). \<not> flag) ((w, False) # schedule) \<and>
               all_finished (run_workers env files ((w, False) # schedule) st)"
      by simp
    then show ?thesis by blast
  qed
qed

text \<open>The shared state under a schedule that never reads the flag set.\<close>

lemma in_set_update_other: "x \<in> set ws \<Longrightarrow> x \<noteq> ws ! w \<Longrightarrow> x \<in> set (ws[w := y])"
  by (metis in_set_conv_nth length_list_update nth_list_update_neq)

lemma in_set_updateD: "x \<in> set (ws[w := y]) \<Longrightarrow> x = y \<or> x \<in> set ws"
  using set_update_subset_insert [of ws w y] by auto

lemma worker_step_invariant:
  assumes inv: "scan_invariant env files st"
    and ok: "\<forall>p \<in> set files. \<exists>fs. analyzeFile env False p = Inr fs"
  shows "scan_invariant env files (worker_step env files w False st)"
proof (cases "w < length (workers st)")
  case False
  with inv show ?thesis by (simp add: worker_step_def)
next
  case w: True
  from inv have
    I1: "\<not> has_errors st" and
    I2: "\<And>p fs. all_results st p = Some fs \<Longrightarrow>
           p \<in> set files \<and> analyzeFile env False p = Inr fs \<and> fs \<noteq> []" and
    I3: "\<And>i. i < length files \<Longrightarrow> i < current_index st \<Longrightarrow>
           Analysing i \<in> set (workers st) \<or>
           (\<forall>fs. analyzeFile env False (files ! i) = Inr fs \<longrightarrow> fs \<noteq> [] \<longrightarrow>
              all_results st (files ! i) = Some fs)" and
    I4: "\<And>i. Analysing i \<in> set (workers st) \<Longrightarrow> i < length files \<and> i < current_index st" and
    I5: "Finished \<in> set (workers st) \<Longrightarrow> length files \<le> current_index st"
    unfolding scan_invariant_def by blast+
  show ?thesis
  proof (cases "workers st ! w")
    case AtLoopHead
    have st': "worker_step env files w False st = st\<lparr>workers := (workers st)[w := Claiming]\<rparr>"
      using w AtLoopHead I1 by (simp add: worker_step_def)
    show ?thesis
      unfolding st' scan_invariant_def
    proof (intro conjI allI impI)
      show "\<not> has_errors (st\<lparr>workers := (workers st)[w := Claiming]\<rparr>)" using I1 by simp
    next
      fix p fs assume "all_results (st\<lparr>workers := (workers st)[w := Claiming]\<rparr>) p = Some fs"
      then have "all_results st p = Some fs" by simp
      from I2 [OF this]
      show "p \<in> set files" "analyzeFile env False p = Inr fs" "fs \<noteq> []" by simp_all
    next
      fix i assume "i < length files \<and> i < current_index (st\<lparr>workers := (workers st)[w := Claiming]\<rparr>)"
      then have "i < length files" "i < current_index st" by simp_all
      from I3 [OF this]
      show "Analysing i \<in> set (workers (st\<lparr>workers := (workers st)[w := Claiming]\<rparr>)) \<or>
        (\<forall>fs. analyzeFile env False (files ! i) = Inr fs \<longrightarrow> fs \<noteq> [] \<longrightarrow>
           all_results (st\<lparr>workers := (workers st)[w := Claiming]\<rparr>) (files ! i) = Some fs)"
        using AtLoopHead by (auto intro: in_set_update_other)
    next
      fix i assume "Analysing i \<in> set (workers (st\<lparr>workers := (workers st)[w := Claiming]\<rparr>))"
      then have "Analysing i \<in> set (workers st)" by (auto dest: in_set_updateD)
      from I4 [OF this]
      show "i < length files" "i < current_index (st\<lparr>workers := (workers st)[w := Claiming]\<rparr>)"
        by simp_all
    next
      assume "Finished \<in> set (workers (st\<lparr>workers := (workers st)[w := Claiming]\<rparr>))"
      then have "Finished \<in> set (workers st)" by (auto dest: in_set_updateD)
      from I5 [OF this]
      show "length files \<le> current_index (st\<lparr>workers := (workers st)[w := Claiming]\<rparr>)" by simp
    qed
  next
    case Claiming
    show ?thesis
    proof (cases "current_index st \<ge> length files")
      case True
      have st': "worker_step env files w False st =
          st\<lparr>current_index := current_index st + 1, workers := (workers st)[w := Finished]\<rparr>"
        using w Claiming True by (simp add: worker_step_def Let_def)
      show ?thesis
        unfolding st' scan_invariant_def
      proof (intro conjI allI impI)
        show "\<not> has_errors (st\<lparr>current_index := current_index st + 1, workers := (workers st)[w := Finished]\<rparr>)"
          using I1 by simp
      next
        fix p fs
        assume "all_results (st\<lparr>current_index := current_index st + 1, workers := (workers st)[w := Finished]\<rparr>) p = Some fs"
        then have "all_results st p = Some fs" by simp
        from I2 [OF this]
        show "p \<in> set files" "analyzeFile env False p = Inr fs" "fs \<noteq> []" by simp_all
      next
        fix i
        assume "i < length files \<and> i < current_index (st\<lparr>current_index := current_index st + 1, workers := (workers st)[w := Finished]\<rparr>)"
        with True have "i < length files" "i < current_index st" by simp_all
        from I3 [OF this]
        show "Analysing i \<in> set (workers (st\<lparr>current_index := current_index st + 1, workers := (workers st)[w := Finished]\<rparr>)) \<or>
          (\<forall>fs. analyzeFile env False (files ! i) = Inr fs \<longrightarrow> fs \<noteq> [] \<longrightarrow>
             all_results (st\<lparr>current_index := current_index st + 1, workers := (workers st)[w := Finished]\<rparr>) (files ! i) = Some fs)"
          using Claiming by (auto intro: in_set_update_other)
      next
        fix i
        assume "Analysing i \<in> set (workers (st\<lparr>current_index := current_index st + 1, workers := (workers st)[w := Finished]\<rparr>))"
        then have "Analysing i \<in> set (workers st)" by (auto dest: in_set_updateD)
        from I4 [OF this]
        show "i < length files"
          "i < current_index (st\<lparr>current_index := current_index st + 1, workers := (workers st)[w := Finished]\<rparr>)"
          by simp_all
      next
        show "length files \<le> current_index (st\<lparr>current_index := current_index st + 1, workers := (workers st)[w := Finished]\<rparr>)"
          using True by simp
      qed
    next
      case False
      have st': "worker_step env files w False st =
          st\<lparr>current_index := current_index st + 1,
             workers := (workers st)[w := Analysing (current_index st)]\<rparr>"
        using w Claiming False by (simp add: worker_step_def Let_def)
      show ?thesis
        unfolding st' scan_invariant_def
      proof (intro conjI allI impI)
        show "\<not> has_errors (st\<lparr>current_index := current_index st + 1, workers := (workers st)[w := Analysing (current_index st)]\<rparr>)"
          using I1 by simp
      next
        fix p fs
        assume "all_results (st\<lparr>current_index := current_index st + 1, workers := (workers st)[w := Analysing (current_index st)]\<rparr>) p = Some fs"
        then have "all_results st p = Some fs" by simp
        from I2 [OF this]
        show "p \<in> set files" "analyzeFile env False p = Inr fs" "fs \<noteq> []" by simp_all
      next
        fix i
        assume a: "i < length files \<and> i < current_index (st\<lparr>current_index := current_index st + 1, workers := (workers st)[w := Analysing (current_index st)]\<rparr>)"
        show "Analysing i \<in> set (workers (st\<lparr>current_index := current_index st + 1, workers := (workers st)[w := Analysing (current_index st)]\<rparr>)) \<or>
          (\<forall>fs. analyzeFile env False (files ! i) = Inr fs \<longrightarrow> fs \<noteq> [] \<longrightarrow>
             all_results (st\<lparr>current_index := current_index st + 1, workers := (workers st)[w := Analysing (current_index st)]\<rparr>) (files ! i) = Some fs)"
        proof (cases "i = current_index st")
          case True
          then show ?thesis using w by (simp add: set_update_memI)
        next
          case False
          with a have "i < length files" "i < current_index st" by simp_all
          from I3 [OF this] show ?thesis
            using Claiming by (auto intro: in_set_update_other)
        qed
      next
        fix i
        assume "Analysing i \<in> set (workers (st\<lparr>current_index := current_index st + 1, workers := (workers st)[w := Analysing (current_index st)]\<rparr>))"
        then have "i = current_index st \<or> Analysing i \<in> set (workers st)"
          by (auto dest: in_set_updateD)
        with I4 [of i] False
        show "i < length files"
          "i < current_index (st\<lparr>current_index := current_index st + 1, workers := (workers st)[w := Analysing (current_index st)]\<rparr>)"
          by auto
      next
        assume "Finished \<in> set (workers (st\<lparr>current_index := current_index st + 1, workers := (workers st)[w := Analysing (current_index st)]\<rparr>))"
        then have "Finished \<in> set (workers st)" by (auto dest: in_set_updateD)
        from I5 [OF this]
        show "length files \<le> current_index (st\<lparr>current_index := current_index st + 1, workers := (workers st)[w := Analysing (current_index st)]\<rparr>)"
          by simp
      qed
    qed
  next
    case (Analysing j)
    from w have "workers st ! w \<in> set (workers st)" by simp
    with Analysing have "Analysing j \<in> set (workers st)" by simp
    from I4 [OF this] have j: "j < length files" "j < current_index st" by simp_all
    then have mem: "files ! j \<in> set files" by simp
    with ok obtain fs where fs: "analyzeFile env False (files ! j) = Inr fs" by blast
    let ?m = "if fs \<noteq> [] then (all_results st)(files ! j \<mapsto> fs) else all_results st"
    have st': "worker_step env files w False st =
        st\<lparr>all_results := ?m, workers := (workers st)[w := AtLoopHead]\<rparr>"
      using w Analysing fs by (simp add: worker_step_def)
    show ?thesis
      unfolding st' scan_invariant_def
    proof (intro conjI allI impI)
      show "\<not> has_errors (st\<lparr>all_results := ?m, workers := (workers st)[w := AtLoopHead]\<rparr>)"
        using I1 by simp
    next
      fix p gs
      assume "all_results (st\<lparr>all_results := ?m, workers := (workers st)[w := AtLoopHead]\<rparr>) p = Some gs"
      then have "all_results st p = Some gs \<or> (p = files ! j \<and> gs = fs \<and> fs \<noteq> [])"
        by (auto split: if_splits)
      with I2 [of p gs] mem fs
      show "p \<in> set files" "analyzeFile env False p = Inr gs" "gs \<noteq> []" by auto
    next
      fix i
      assume "i < length files \<and> i < current_index (st\<lparr>all_results := ?m, workers := (workers st)[w := AtLoopHead]\<rparr>)"
      then have i: "i < length files" "i < current_index st" by simp_all
      show "Analysing i \<in> set (workers (st\<lparr>all_results := ?m, workers := (workers st)[w := AtLoopHead]\<rparr>)) \<or>
          (\<forall>gs. analyzeFile env False (files ! i) = Inr gs \<longrightarrow> gs \<noteq> [] \<longrightarrow>
             all_results (st\<lparr>all_results := ?m, workers := (workers st)[w := AtLoopHead]\<rparr>) (files ! i) = Some gs)"
      proof (cases "files ! i = files ! j")
        case True
        with fs show ?thesis by auto
      next
        case False
        then have "i \<noteq> j" by auto
        with I3 [OF i] False Analysing show ?thesis
          by (auto intro: in_set_update_other)
      qed
    next
      fix i
      assume "Analysing i \<in> set (workers (st\<lparr>all_results := ?m, workers := (workers st)[w := AtLoopHead]\<rparr>))"
      then have "Analysing i \<in> set (workers st)" by (auto dest: in_set_updateD)
      from I4 [OF this]
      show "i < length files"
        "i < current_index (st\<lparr>all_results := ?m, workers := (workers st)[w := AtLoopHead]\<rparr>)"
        by simp_all
    next
      assume "Finished \<in> set (workers (st\<lparr>all_results := ?m, workers := (workers st)[w := AtLoopHead]\<rparr>))"
      then have "Finished \<in> set (workers st)" by (auto dest: in_set_updateD)
      from I5 [OF this]
      show "length files \<le> current_index (st\<lparr>all_results := ?m, workers := (workers st)[w := AtLoopHead]\<rparr>)"
        by simp
    qed
  next
    case Finished
    with inv w show ?thesis by (simp add: worker_step_def)
  qed
qed

lemma run_workers_invariant:
  assumes "scan_invariant env files st"
    and "\<forall>p \<in> set files. \<exists>fs. analyzeFile env False p = Inr fs"
    and "list_all (\<lambda>(w, flag). \<not> flag) schedule"
  shows "scan_invariant env files (run_workers env files schedule st)"
  using assms
proof (induction schedule arbitrary: st)
  case Nil
  then show ?case by simp
next
  case (Cons a schedule)
  obtain w flag where a: "a = (w, flag)" by (cases a)
  with Cons.prems have "\<not> flag" by simp
  with a Cons.prems worker_step_invariant [of env files st w]
  show ?case by (auto intro!: Cons.IH)
qed

lemma collect_files_set:
  assumes "IterationError \<notin> set entries"
    and "\<forall>p. RegularFile p \<in> set entries \<longrightarrow> (\<exists>a. getAnalyzerForFile registry p = Inr a)"
  shows "\<exists>files. collect_files registry entries acc = Inr files \<and>
           set files = set acc \<union> {p. RegularFile p \<in> set entries \<and>
                                       getAnalyzerForFile registry p \<noteq> Inr None} \<and>
           length files \<le> length acc + length entries"
  using assms
proof (induction entries arbitrary: acc)
  case Nil
  then show ?case by simp
next
  case (Cons d rest)
  have IH: "\<And>acc. \<exists>files. collect_files registry rest acc = Inr files \<and>
           set files = set acc \<union> {p. RegularFile p \<in> set rest \<and>
                                       getAnalyzerForFile registry p \<noteq> Inr None} \<and>
           length files \<le> length acc + length rest"
    using Cons.prems by (intro Cons.IH) auto
  show ?case
  proof (cases d)
    case (RegularFile path)
    with Cons.prems obtain a where a: "getAnalyzerForFile registry path = Inr a" by auto
    show ?thesis
    proof (cases a)
      case None
      from IH [of acc] obtain files where
        "collect_files registry rest acc = Inr files"
        "set files = set acc \<union> {p. RegularFile p \<in> set rest \<and>
                                       getAnalyzerForFile registry p \<noteq> Inr None}"
        "length files \<le> length acc + length rest" by blast
      with a None RegularFile show ?thesis by auto
    next
      case (Some an)
      from IH [of "acc @ [path]"] obtain files where
        "collect_files registry rest (acc @ [path]) = Inr files"
        "set files = set (acc @ [path]) \<union> {p. RegularFile p \<in> set rest \<and>
                                       getAnalyzerForFile registry p \<noteq> Inr None}"
        "length files \<le> length (acc @ [path]) + length rest" by blast
      with a Some RegularFile show ?thesis by auto
    qed
  next
    case (OtherEntry path)
    with IH [of acc] show ?thesis by auto
  next
    case IterationError
    with Cons.prems show ?thesis by simp
  qed
qed

lemma sint_length:
  assumes "n < 2 ^ 31"
  shows "sint (word_of_nat n :: 32 word) = int n"
proof -
  have "sint (word_of_nat n :: 32 word) = signed_take_bit 31 (int n)"
    by (simp add: signed_of_nat)
  also have "\<dots> = int n"
    using assms by (intro signed_take_bit_int_eq_self) auto
  finally show ?thesis .
qed

lemma finished_map:
  assumes inv: "scan_invariant env files st"
    and fin: "all_finished st"
    and ne: "files \<noteq> [] \<longrightarrow> workers st \<noteq> []"
    and ok: "\<forall>p \<in> set files. \<exists>fs. analyzeFile env False p = Inr fs"
  shows "all_results st p =
           (if p \<in> set files
            then (case analyzeFile env False p of
                    Inr fs \<Rightarrow> if fs = [] then None else Some fs
                  | Inl e \<Rightarrow> None)
            else None)"
proof -
  from inv have
    I2: "\<And>gs. all_results st p = Some gs \<Longrightarrow>
           p \<in> set files \<and> analyzeFile env False p = Inr gs \<and> gs \<noteq> []" and
    I3: "\<And>i. i < length files \<Longrightarrow> i < current_index st \<Longrightarrow>
           Analysing i \<in> set (workers st) \<or>
           (\<forall>fs. analyzeFile env False (files ! i) = Inr fs \<longrightarrow> fs \<noteq> [] \<longrightarrow>
              all_results st (files ! i) = Some fs)" and
    I5: "Finished \<in> set (workers st) \<Longrightarrow> length files \<le> current_index st"
    unfolding scan_invariant_def by blast+
  show ?thesis
  proof (cases "p \<in> set files")
    case False
    with I2 have "all_results st p = None"
      by (cases "all_results st p") auto
    with False show ?thesis by simp
  next
    case True
    then obtain i where i: "i < length files" "files ! i = p"
      by (auto simp: in_set_conv_nth)
    from True ok obtain fs where fs: "analyzeFile env False p = Inr fs" by blast
    from True ne have "workers st \<noteq> []" by auto
    with fin have allf: "set (workers st) = {Finished}"
      by (cases "workers st") (auto simp: all_finished_def list_all_iff)
    then have "Finished \<in> set (workers st)" by simp
    from I5 [OF this] i have "i < current_index st" by simp
    from I3 [OF i(1) this] allf i(2) fs
    have acc: "fs \<noteq> [] \<longrightarrow> all_results st p = Some fs"
      by simp
    show ?thesis
    proof (cases "fs = []")
      case e: True
      from I2 fs e have "all_results st p = None"
        by (cases "all_results st p") auto
      with e fs True show ?thesis by simp
    next
      case False
      with acc fs True show ?thesis by simp
    qed
  qed
qed

lemma initial_invariant:
  "scan_invariant env files
     \<lparr>current_index = 0, has_errors = False, all_results = Map.empty,
      workers = replicate k AtLoopHead\<rparr>"
  by (simp add: scan_invariant_def)

lemma worker_step_length:
  "length (workers (worker_step env files w flag st)) = length (workers st)"
  by (simp add: worker_step_def Let_def split: worker.splits sum.splits exn.splits)

lemma run_workers_length:
  "length (workers (run_workers env files schedule st)) = length (workers st)"
  by (induction schedule arbitrary: st) (auto simp: worker_step_length)

lemma run_workers_append:
  "run_workers env files (schedule @ rest) st =
     run_workers env files rest (run_workers env files schedule st)"
  by (induction schedule arbitrary: st) auto

lemma worker_exception_sets_flag:
  assumes "w < length (workers st)" and "workers st ! w = Analysing i"
    and "analyzeFile env flag (files ! i) = Inl e" and "e \<noteq> unknown_exception"
  shows "has_errors (worker_step env files w flag st)"
  using assms by (cases e) (simp_all add: worker_step_def)

text \<open>
  C6, as amended. Let the enumeration of the directory not fail, \<open>isSupportedFile\<close>
  raise for none of its files, the analysis of none of its files raise, the worker
  count be positive and the directory have fewer than \<open>2 ^ 31\<close> entries. Then every
  schedule of the workers of \<open>analyzeDirectoryParallel\<close> can be continued to one under
  which the call returns; and under every schedule that never reads the cancellation
  flag set and under which the call returns, it returns the map of the serial
  \<open>analyzeDirectory\<close> restricted to the files for which an analyzer is registered:
  a file without one has no entry in the parallel map.
\<close>

theorem parallel_scan_agrees_on_supported_files:
  assumes enum: "IterationError \<notin> set entries"
    and supp: "\<forall>p. RegularFile p \<in> set entries \<longrightarrow>
                 (\<exists>a. getAnalyzerForFile (analyzers env) p = Inr a)"
    and ok: "\<forall>p. RegularFile p \<in> set entries \<longrightarrow> (\<exists>fs. analyzeFile env False p = Inr fs)"
    and threads: "0 < sint max_threads" and len: "length entries < 2 ^ 31"
  shows "(\<forall>schedule. \<exists>rest. never_cancelled rest \<and>
            analyzeDirectoryParallel env entries max_threads (schedule @ rest) \<noteq> None) \<and>
         (\<forall>schedule r. never_cancelled schedule \<longrightarrow>
            analyzeDirectoryParallel env entries max_threads schedule = Some r \<longrightarrow>
            (\<exists>m_par m_ser. r = Inr m_par \<and>
               analyzeDirectory env (uncancelled entries) = Inr m_ser \<and>
               (\<forall>p. m_par p = (if getAnalyzerForFile (analyzers env) p = Inr None then None
                               else m_ser p))))"
proof -
  from collect_files_set [OF enum supp, of "[]"] obtain files where
    files: "collect_files (analyzers env) entries [] = Inr files"
    and set_files: "set files = {p. RegularFile p \<in> set entries \<and>
                                    getAnalyzerForFile (analyzers env) p \<noteq> Inr None}"
    and len_files: "length files \<le> length entries"
    by auto
  define k where "k = nat (min (sint max_threads) (sint (word_of_nat (length files) :: 32 word)))"
  define st0 where "st0 = \<lparr>current_index = 0, has_errors = False, all_results = Map.empty,
      workers = replicate k AtLoopHead\<rparr>"
  have par: "\<And>schedule. analyzeDirectoryParallel env entries max_threads schedule =
      (if all_finished (run_workers env files schedule st0)
       then Some (Inr (all_results (run_workers env files schedule st0))) else None)"
    by (simp add: analyzeDirectoryParallel_def files Let_def st0_def k_def)
  from len_files len have "sint (word_of_nat (length files) :: 32 word) = int (length files)"
    by (intro sint_length) simp
  with threads have k: "files \<noteq> [] \<longrightarrow> 0 < k"
    by (auto simp: k_def)
  have ok': "\<forall>p \<in> set files. \<exists>fs. analyzeFile env False p = Inr fs"
    using ok set_files by auto
  have ser: "analyzeDirectory env (uncancelled entries) =
      Inr (\<lambda>p. if RegularFile p \<in> set entries
               then (case analyzeFile env False p of
                       Inr fs \<Rightarrow> if fs = [] then None else Some fs
                     | Inl e \<Rightarrow> None)
               else None)"
    using enum ok by (subst analyzeDirectory_scan, subst scan_complete) auto
  have live: "\<exists>rest. never_cancelled rest \<and>
            analyzeDirectoryParallel env entries max_threads (schedule @ rest) \<noteq> None"
    for schedule
    using complete_schedule_exists [of env files "run_workers env files schedule st0"]
    by (auto simp: par never_cancelled_def run_workers_append)
  have safe: "\<exists>m_par m_ser. r = Inr m_par \<and>
               analyzeDirectory env (uncancelled entries) = Inr m_ser \<and>
               (\<forall>p. m_par p = (if getAnalyzerForFile (analyzers env) p = Inr None then None
                               else m_ser p))"
    if nc: "never_cancelled schedule"
      and r: "analyzeDirectoryParallel env entries max_threads schedule = Some r"
    for schedule r
  proof -
    let ?st = "run_workers env files schedule st0"
    from r have fin: "all_finished ?st" and r': "r = Inr (all_results ?st)"
      by (auto simp: par split: if_splits)
    have inv: "scan_invariant env files ?st"
      using nc ok' unfolding st0_def never_cancelled_def
      by (intro run_workers_invariant initial_invariant)
    have "length (workers ?st) = k"
      by (simp add: run_workers_length st0_def)
    with k have ne: "files \<noteq> [] \<longrightarrow> workers ?st \<noteq> []" by auto
    note m = finished_map [OF inv fin ne ok']
    have "\<forall>p. all_results ?st p =
        (if getAnalyzerForFile (analyzers env) p = Inr None then None
         else (if RegularFile p \<in> set entries
               then (case analyzeFile env False p of
                       Inr fs \<Rightarrow> if fs = [] then None else Some fs
                     | Inl e \<Rightarrow> None)
               else None))"
      by (auto simp: m set_files)
    with r' ser show ?thesis by blast
  qed
  from live safe show ?thesis by blast
qed

theorem parallel_scan_agrees_on_supported_files_witness:
  "\<forall>g p.
     never_cancelled example_schedule \<and>
     (\<exists>m_par m_ser.
        analyzeDirectoryParallel (example_env g p)
          (example_entries @ [RegularFile ''d/README.md'']) 2 example_schedule
          = Some (Inr m_par) \<and>
        analyzeDirectory (example_env g p)
          (uncancelled (example_entries @ [RegularFile ''d/README.md''])) = Inr m_ser \<and>
        m_par ''d/b.cpp'' \<noteq> None \<and> m_par ''d/b.cpp'' = m_ser ''d/b.cpp'' \<and>
        m_par ''d/README.md'' = None \<and> m_ser ''d/README.md'' \<noteq> None)"
proof (intro allI)
  fix g p
  let ?env = "example_env g p"
  let ?entries = "example_entries @ [RegularFile ''d/README.md'']"
  let ?B = "finding ''d/b.cpp'' ''SECURITY_VULNERABILITY''
              ''Potential security vulnerability detected'' ''CRITICAL'' 1"
  let ?U = "finding ''d/u.cpp'' ''FILE_ERROR'' ''Cannot open file: d/u.cpp'' ''ERROR'' 0"
  let ?R = "finding ''d/README.md'' ''UNSUPPORTED_LANGUAGE'' ''File type not supported''
              ''ERROR'' 0"
  have a: "analyzeFile ?env False ''d/a.cpp'' = Inr []"
    by (simp add: manager_eval2)
  have b: "analyzeFile ?env False ''d/b.cpp'' = Inr [?B]"
    by (simp add: manager_eval2)
  have u: "analyzeFile ?env False ''d/u.cpp'' = Inr [?U]"
    by (simp add: manager_eval2)
  have r: "analyzeFile ?env False ''d/README.md'' = Inr [?R]"
    by (simp add: manager_eval2)
  have ga: "\<exists>x. getAnalyzerForFile (analyzers ?env) ''d/a.cpp'' = Inr x"
    by (simp add: manager_eval2)
  have gb: "\<exists>x. getAnalyzerForFile (analyzers ?env) ''d/b.cpp'' = Inr x"
    by (simp add: manager_eval2)
  have gu: "\<exists>x. getAnalyzerForFile (analyzers ?env) ''d/u.cpp'' = Inr x"
    by (simp add: manager_eval2)
  have gr: "getAnalyzerForFile (analyzers ?env) ''d/README.md'' = Inr None"
    by (simp add: manager_eval2)
  have gb': "getAnalyzerForFile (analyzers ?env) ''d/b.cpp'' \<noteq> Inr None"
    by (simp add: manager_eval2)
  have nc: "never_cancelled example_schedule"
    by (simp add: never_cancelled_def example_schedule_def)
  have files: "collect_files (analyzers ?env) ?entries []
      = Inr [''d/a.cpp'', ''d/b.cpp'', ''d/u.cpp'']"
    by (simp add: manager_eval2)
  have run: "run_workers ?env [''d/a.cpp'', ''d/b.cpp'', ''d/u.cpp'']
       example_schedule
       \<lparr>current_index = 0, has_errors = False, all_results = Map.empty,
        workers = [AtLoopHead, AtLoopHead]\<rparr>
     = \<lparr>current_index = 5, has_errors = False,
        all_results = [''d/b.cpp'' \<mapsto> [?B], ''d/u.cpp'' \<mapsto> [?U]],
        workers = [Finished, Finished]\<rparr>"
    by (simp add: example_schedule_def worker_step_def Let_def a b u)
  have q: "analyzeDirectoryParallel ?env ?entries 2 example_schedule
          = Some (Inr [''d/b.cpp'' \<mapsto> [?B], ''d/u.cpp'' \<mapsto> [?U]])"
    by (simp add: analyzeDirectoryParallel_def files Let_def numeral_2_eq_2 run
                  all_finished_def)
  have enum: "IterationError \<notin> set ?entries"
    by (simp add: example_entries_def)
  have supp: "\<forall>p. RegularFile p \<in> set ?entries \<longrightarrow>
                 (\<exists>x. getAnalyzerForFile (analyzers ?env) p = Inr x)"
    using ga gb gu gr by (auto simp: example_entries_def)
  have ok: "\<forall>p. RegularFile p \<in> set ?entries \<longrightarrow> (\<exists>fs. analyzeFile ?env False p = Inr fs)"
    using a b u r by (auto simp: example_entries_def)
  have threads: "0 < sint (2 :: 32 word)" by simp
  have len: "length ?entries < 2 ^ 31" by (simp add: example_entries_def)
  from parallel_scan_agrees_on_supported_files [OF enum supp ok threads len] nc q
  obtain m_ser where
    ser: "analyzeDirectory ?env (uncancelled ?entries) = Inr m_ser" and
    rel: "\<forall>p. [''d/b.cpp'' \<mapsto> [?B], ''d/u.cpp'' \<mapsto> [?U]] p =
             (if getAnalyzerForFile (analyzers ?env) p = Inr None then None else m_ser p)"
    by blast
  from rel [rule_format, of "''d/b.cpp''"] gb'
  have mb: "m_ser ''d/b.cpp'' = Some [?B]" by simp
  have "analyzeDirectory ?env (uncancelled ?entries) =
      Inr [''d/b.cpp'' \<mapsto> [?B], ''d/u.cpp'' \<mapsto> [?U], ''d/README.md'' \<mapsto> [?R]]"
    by (simp add: analyzeDirectory_def uncancelled_def example_entries_def scan_regular a b u r)
  with ser have mr: "m_ser ''d/README.md'' \<noteq> None"
    by auto
  show "never_cancelled example_schedule \<and>
     (\<exists>m_par m_ser.
        analyzeDirectoryParallel ?env ?entries 2 example_schedule = Some (Inr m_par) \<and>
        analyzeDirectory ?env (uncancelled ?entries) = Inr m_ser \<and>
        m_par ''d/b.cpp'' \<noteq> None \<and> m_par ''d/b.cpp'' = m_ser ''d/b.cpp'' \<and>
        m_par ''d/README.md'' = None \<and> m_ser ''d/README.md'' \<noteq> None)"
    using nc q ser mb mr by simp
qed

text \<open>
  A directory that holds one file for which no analyzer is registered: the serial scan
  enters it in the map under \<open>UNSUPPORTED_LANGUAGE\<close>, the parallel scan, under every
  schedule, returns the empty map.
\<close>

theorem unsupported_file_counterexample:
  "\<forall>g p schedule.
     (case analyzeDirectory (example_env g p) (uncancelled [RegularFile ''d/README.md'']) of
        Inl e \<Rightarrow> False
      | Inr m \<Rightarrow>
          m ''d/README.md'' =
            Some [finding ''d/README.md'' ''UNSUPPORTED_LANGUAGE'' ''File type not supported''
                    ''ERROR'' 0]) \<and>
     analyzeDirectoryParallel (example_env g p) [RegularFile ''d/README.md''] 4 schedule
       = Some (Inr Map.empty)"
  by (simp add: manager_eval2 analyzeDirectoryParallel_def all_finished_def
                run_workers_no_workers)

end
